(* ===== verification/Prelude.thy ===== *)
theory Prelude
  imports Main "HOL-Library.Word"
begin

text \<open>
  Shared vocabulary of the development: machine types, JavaScript strings as lists of UTF-16
  code units, exceptions, and the state-and-exception computations in which the hosts' statements
  are written, with the lemmas every component uses.
\<close>

named_theorems js_simps \<open>evaluation of JavaScript primitives\<close>
named_theorems comp_simps \<open>evaluation of state-and-exception computations\<close>

type_synonym byte = "8 word"
type_synonym i32 = "32 word"
type_synonym cu = "16 word"
type_synonym jstr = "cu list"

section \<open>String literals\<close>

text \<open>A JavaScript string is a list of UTF-16 code units; \<open>js\<close> reads an ASCII literal.\<close>

definition js :: "string \<Rightarrow> jstr" where
  "js s = map of_char s"

lemma unat_of_char_cu [simp]: "unat (of_char c :: cu) = of_char c"
proof -
  have "of_char c < (2::nat) ^ 16"
    by (rule less_trans [of _ 256]) (use nat_of_char_less_256 [of c] in simp_all)
  then have "unat (of_nat (of_char c) :: cu) = of_char c"
    by (simp only: unat_of_nat take_bit_nat_eq_self len_num1 len_bit0 len_num0)
       (simp add: take_bit_nat_eq_self)
  then show ?thesis by (simp only: of_nat_of_char)
qed

lemma of_char_cu_inject: "(of_char c :: cu) = of_char d \<longleftrightarrow> c = d"
  by (metis unat_of_char_cu of_char_eq_iff)

lemma js_inject [simp]: "js s = js t \<longleftrightarrow> s = t"
proof -
  have "inj (of_char :: char \<Rightarrow> cu)"
    by (rule injI) (simp add: of_char_cu_inject)
  then show ?thesis by (simp add: js_def inj_map_eq_map)
qed

lemma js_Nil [simp]: "js [] = []"
  by (simp add: js_def)

lemma js_eq_Nil [simp]: "js s = [] \<longleftrightarrow> s = []" "[] = js s \<longleftrightarrow> s = []"
  by (simp_all add: js_def)

lemma js_append: "js (s @ t) = js s @ js t"
  by (simp add: js_def)

lemma js_Cons: "js (c # s) = of_char c # js s"
  by (simp add: js_def)

lemma length_js [simp]: "length (js s) = length s"
  by (simp add: js_def)

section \<open>Exceptions\<close>

text \<open>
  What a \<open>throw\<close> carries. \<open>Thrown m\<close> is \<open>new Error(m)\<close>, written by the hosts themselves.
  A \<open>Fault\<close> is raised by the engine or by Node; its message text is the implementation's own, so
  every definition that prints one takes the texts as a parameter.
\<close>

datatype fault =
    Undefined_base jstr       \<comment> \<open>TypeError: property read on null or undefined\<close>
  | Not_a_function jstr       \<comment> \<open>TypeError: the callee is not a function\<close>
  | No_object                 \<comment> \<open>TypeError: cannot convert undefined or null to object\<close>
  | Not_iterable              \<comment> \<open>TypeError: spread or for-of over a non-iterable\<close>
  | No_primitive              \<comment> \<open>TypeError: cannot convert object to primitive value\<close>
  | Out_of_range              \<comment> \<open>RangeError of typed arrays, DataView and Buffer\<close>
  | Bad_argument jstr         \<comment> \<open>TypeError [ERR_INVALID_ARG_TYPE] of a Node function\<close>
  | Quota_exceeded            \<comment> \<open>QuotaExceededError of crypto.getRandomValues\<close>
  | Bad_json                  \<comment> \<open>SyntaxError of JSON.parse\<close>
  | Io_error jstr             \<comment> \<open>Error of a file system call on a path\<close>
  | Wasm_error jstr           \<comment> \<open>CompileError, LinkError or RuntimeError (a trap)\<close>

datatype exn = Thrown jstr | Fault fault

text \<open>The texts of the engine's own errors: \<open>e.message\<close> and \<open>String(e)\<close>.\<close>

record texts =
  tx_message :: "fault \<Rightarrow> jstr"
  tx_string :: "fault \<Rightarrow> jstr"

text \<open>\<open>e.message\<close>\<close>

fun message_of :: "texts \<Rightarrow> exn \<Rightarrow> jstr" where
  "message_of tx (Thrown m) = m"
| "message_of tx (Fault f) = tx_message tx f"

text \<open>\<open>String(e)\<close>; \<open>String(new Error(m))\<close> is \<open>Error: m\<close>, or \<open>Error\<close> for an empty message.\<close>

fun string_of_exn :: "texts \<Rightarrow> exn \<Rightarrow> jstr" where
  "string_of_exn tx (Thrown m) = (if m = [] then js ''Error'' else js ''Error: '' @ m)"
| "string_of_exn tx (Fault f) = tx_string tx f"

text \<open>\<open>String(e && e.message ? e.message : e)\<close>, which is also \<open>String((e && e.message) || e)\<close>\<close>

definition error_text :: "texts \<Rightarrow> exn \<Rightarrow> jstr" where
  "error_text tx e = (if message_of tx e = [] then string_of_exn tx e else message_of tx e)"

section \<open>Computations with state and exceptions\<close>

text \<open>
  A statement sequence over a state: the state survives an exception, as the heap of the process
  does.
\<close>

type_synonym ('s, 'a) comp = "'s \<Rightarrow> 's \<times> (exn + 'a)"

definition returnC :: "'a \<Rightarrow> ('s, 'a) comp" where
  "returnC a s = (s, Inr a)"

definition throwC :: "exn \<Rightarrow> ('s, 'a) comp" where
  "throwC e s = (s, Inl e)"

definition bindC :: "('s, 'a) comp \<Rightarrow> ('a \<Rightarrow> ('s, 'b) comp) \<Rightarrow> ('s, 'b) comp" where
  "bindC m f s = (case m s of (s', r) \<Rightarrow> (case r of Inl e \<Rightarrow> (s', Inl e) | Inr a \<Rightarrow> f a s'))"

text \<open>A pure result used as a statement.\<close>

definition liftC :: "exn + 'a \<Rightarrow> ('s, 'a) comp" where
  "liftC r s = (s, r)"

text \<open>The same on results without a state.\<close>

definition bindE :: "exn + 'a \<Rightarrow> ('a \<Rightarrow> exn + 'b) \<Rightarrow> exn + 'b" where
  "bindE r f = (case r of Inl e \<Rightarrow> Inl e | Inr a \<Rightarrow> f a)"

lemma returnC_apply [simp, comp_simps]: "returnC a s = (s, Inr a)"
  by (simp add: returnC_def)

lemma throwC_apply [simp, comp_simps]: "throwC e s = (s, Inl e)"
  by (simp add: throwC_def)

lemma liftC_apply [simp, comp_simps]: "liftC r s = (s, r)"
  by (simp add: liftC_def)

lemma bindC_Inr [simp, comp_simps]: "m s = (s', Inr a) \<Longrightarrow> bindC m f s = f a s'"
  by (simp add: bindC_def)

lemma bindC_Inl [simp, comp_simps]: "m s = (s', Inl e) \<Longrightarrow> bindC m f s = (s', Inl e)"
  by (simp add: bindC_def)

lemma bindC_liftC [simp, comp_simps]:
  "bindC (liftC (Inr a)) f = f a" "bindC (liftC (Inl e)) f = throwC e" "bindC (returnC a) f = f a"
  by (simp_all add: fun_eq_iff bindC_def)

lemma bindC_Inr_iff:
  "bindC m f s = (t, Inr b) \<longleftrightarrow> (\<exists>s' a. m s = (s', Inr a) \<and> f a s' = (t, Inr b))"
  by (auto simp: bindC_def split: prod.splits sum.splits)

lemma bindC_Inl_iff:
  "bindC m f s = (t, Inl e) \<longleftrightarrow>
     m s = (t, Inl e) \<or> (\<exists>s' a. m s = (s', Inr a) \<and> f a s' = (t, Inl e))"
  by (auto simp: bindC_def split: prod.splits sum.splits)

lemma bindC_cong [fundef_cong]:
  assumes "m s = m' s" and "\<And>a s'. m' s = (s', Inr a) \<Longrightarrow> f a s' = f' a s'" and "s = t"
  shows "bindC m f s = bindC m' f' t"
  using assms by (auto simp: bindC_def split: prod.splits sum.splits)

lemma bindC_assoc: "bindC (bindC m f) g = bindC m (\<lambda>a. bindC (f a) g)"
  by (rule ext) (simp add: bindC_def split: prod.splits sum.splits)

lemma bindC_return: "bindC m returnC = m"
  by (rule ext) (simp add: bindC_def split: prod.splits sum.splits)

lemma bindE_simps [simp, comp_simps]: "bindE (Inl e) f = Inl e" "bindE (Inr a) f = f a"
  by (simp_all add: bindE_def)

lemma bindE_Inr_iff: "bindE r f = Inr b \<longleftrightarrow> (\<exists>a. r = Inr a \<and> f a = Inr b)"
  by (cases r) simp_all

lemma bindC_liftC_bindE: "bindC (liftC (bindE r f)) g = bindC (liftC r) (\<lambda>a. bindC (liftC (f a)) g)"
  by (cases r) (simp_all add: fun_eq_iff bindC_def)

lemma bindC_liftC_apply: "bindC (liftC r) f s = (case r of Inl e \<Rightarrow> (s, Inl e) | Inr a \<Rightarrow> f a s)"
  by (simp add: bindC_def split: sum.split)

section \<open>Generic facts\<close>

lemma map_of_append_skip: "k \<notin> fst ` set xs \<Longrightarrow> map_of (xs @ ys) k = map_of ys k"
  by (induction xs) auto

lemma length_take_min: "length (take n xs) = min n (length xs)"
  by (simp add: min.commute)

lemma map_upt_take: "k \<le> length xs \<Longrightarrow> map (\<lambda>i. f (xs ! i)) [0..<k] = map f (take k xs)"
  by (rule nth_equalityI) simp_all

lemma upt_split: "i < n \<Longrightarrow> [0..<n] = [0..<i] @ i # [Suc i..<n]"
  using upt_add_eq_append [of 0 i "n - i"] by (simp add: upt_conv_Cons)

end
