(* ===== verification/Js_Number.thy ===== *)
theory Js_Number
  imports Prelude
begin

text \<open>
  The Number values the hosts meet: what \<open>JSON.parse\<close> makes of a numeral, IEEE 754 rounding of an
  integer product (the deterministic fill multiplies by 2654435761), and the text \<open>String(n)\<close>
  prints. NaN cannot arise here and is not modelled; minus zero is not told from zero, because
  printing, truthiness and \<open>Number.isInteger\<close> do not tell them apart either.
\<close>

section \<open>Binary doubles\<close>

text \<open>\<open>NFrac m k\<close> is \<open>m / 2^k\<close> with odd \<open>m\<close> and \<open>0 < k\<close>; \<open>NInf True\<close> is \<open>-Infinity\<close>.\<close>

datatype num = NInt int | NFrac int nat | NInf bool

fun bitlen :: "nat \<Rightarrow> nat" where
  "bitlen n = (if n = 0 then 0 else Suc (bitlen (n div 2)))"

declare bitlen.simps [simp del]

definition round_half_even :: "nat \<Rightarrow> nat \<Rightarrow> nat" where
  "round_half_even p q =
     (let d = p div q; r = p mod q
      in if 2 * r < q \<or> (2 * r = q \<and> even d) then d else d + 1)"

fun norm_dyadic :: "int \<Rightarrow> nat \<Rightarrow> num" where
  "norm_dyadic m 0 = NInt m"
| "norm_dyadic m (Suc k) = (if even m then norm_dyadic (m div 2) k else NFrac m (Suc k))"

text \<open>\<open>p / (q * 2^e)\<close> as a quotient of naturals.\<close>

definition scaled :: "nat \<Rightarrow> nat \<Rightarrow> int \<Rightarrow> nat \<times> nat" where
  "scaled p q e = (if 0 \<le> e then (p, q * 2 ^ nat e) else (p * 2 ^ nat (- e), q))"

text \<open>The exponent of the last place: the significand then has 53 bits, fewer when subnormal.\<close>

definition last_place :: "nat \<Rightarrow> nat \<Rightarrow> int" where
  "last_place p q =
     (let e = int (bitlen p) - int (bitlen q) - 53;
          (a, b) = scaled p q e;
          e' = (if 2 ^ 53 * b \<le> a then e + 1 else e)
      in max e' (-1074))"

definition double_of_ratio :: "bool \<Rightarrow> nat \<Rightarrow> nat \<Rightarrow> num" where
  "double_of_ratio neg p q =
     (let e = last_place p q;
          (a, b) = scaled p q e;
          m = round_half_even a b;
          s = (if neg then - int m else int m)
      in if 0 \<le> e then
           (if 2 ^ 1024 \<le> m * 2 ^ nat e then NInf neg else NInt (s * 2 ^ nat e))
         else norm_dyadic s (nat (- e)))"

text \<open>
  The double nearest to \<open>p / q\<close>, ties to even. An integer of at most 53 bits is a double itself.
\<close>

definition to_double :: "int \<Rightarrow> nat \<Rightarrow> num" where
  "to_double p q =
     (if int q dvd p \<and> \<bar>p div int q\<bar> \<le> 2 ^ 53 then NInt (p div int q)
      else double_of_ratio (p < 0) (nat \<bar>p\<bar>) q)"

text \<open>\<open>a * b\<close> for integer-valued Numbers\<close>

definition js_mul :: "int \<Rightarrow> int \<Rightarrow> num" where
  "js_mul a b = to_double (a * b) 1"

lemma to_double_int [simp]: "\<bar>n\<bar> \<le> 2 ^ 53 \<Longrightarrow> to_double n (Suc 0) = NInt n"
  by (simp add: to_double_def)

lemma js_mul_exact: "\<bar>a * b\<bar> \<le> 2 ^ 53 \<Longrightarrow> js_mul a b = NInt (a * b)"
  by (simp add: js_mul_def)

section \<open>Decimal text\<close>

fun dec_digits :: "nat \<Rightarrow> nat list" where
  "dec_digits n = (if n < 10 then [n] else dec_digits (n div 10) @ [n mod 10])"

declare dec_digits.simps [simp del]

definition digit_text :: "nat list \<Rightarrow> jstr" where
  "digit_text ds = map (\<lambda>d. of_nat (48 + d)) ds"

definition nat_text :: "nat \<Rightarrow> jstr" where
  "nat_text n = digit_text (dec_digits n)"

definition int_text :: "int \<Rightarrow> jstr" where
  "int_text n = (if n < 0 then js ''-'' @ nat_text (nat (- n)) else nat_text (nat n))"

text \<open>The decimal exponent \<open>n\<close> of \<open>x = p / q > 0\<close>: \<open>10^(n-1) \<le> x < 10^n\<close>.\<close>

definition dec_exponent :: "nat \<Rightarrow> nat \<Rightarrow> int" where
  "dec_exponent p q =
     (if q \<le> p then int (length (dec_digits (p div q)))
      else 1 - int (length (dec_digits ((q + p - 1) div p - 1))))"

definition ratio10 :: "nat \<Rightarrow> int \<Rightarrow> nat \<times> nat" where
  "ratio10 d e = (if 0 \<le> e then (d * 10 ^ nat e, 1) else (d, 10 ^ nat (- e)))"

definition decimal_double :: "bool \<Rightarrow> nat \<Rightarrow> int \<Rightarrow> num" where
  "decimal_double neg d e =
     (let (p, q) = ratio10 d e in to_double (if neg then - int p else int p) q)"

text \<open>
  The digits of Number::toString: the fewest digits whose decimal rounds back to \<open>x = p / q\<close>, the
  nearer of the two candidates when both do. The result is \<open>(s, k, n)\<close> with value
  \<open>s * 10^(n-k)\<close>. Seventeen digits identify a double.
\<close>

definition candidate :: "num \<Rightarrow> nat \<Rightarrow> nat \<Rightarrow> int \<Rightarrow> nat \<Rightarrow> nat option" where
  "candidate x p q n k =
     (let (a, b) = (if 0 \<le> n - int k then (p, q * 10 ^ nat (n - int k))
                    else (p * 10 ^ nat (int k - n), q));
          lo = a div b; hi = (if a mod b = 0 then lo else lo + 1);
          ok = (\<lambda>s. decimal_double False s (n - int k) = x)
      in if ok lo \<and> (\<not> ok hi \<or> 2 * (a mod b) \<le> b) then Some lo
         else if ok hi then Some hi else None)"

fun shortest :: "nat \<Rightarrow> num \<Rightarrow> nat \<Rightarrow> nat \<Rightarrow> int \<Rightarrow> nat \<Rightarrow> nat \<times> nat \<times> int" where
  "shortest 0 x p q n k = (p div q, k, n)"
| "shortest (Suc fuel) x p q n k =
     (case candidate x p q n k of
        Some s \<Rightarrow> (if s = 10 ^ k then (1, 1, n + 1) else (s, k, n))
      | None \<Rightarrow> shortest fuel x p q n (Suc k))"

definition exponent_text :: "int \<Rightarrow> jstr" where
  "exponent_text e =
     js ''e'' @ (if e < 0 then js ''-'' else js ''+'') @ nat_text (nat \<bar>e\<bar>)"

definition layout :: "nat \<times> nat \<times> int \<Rightarrow> jstr" where
  "layout = (\<lambda>(s, k, n).
     let ds = nat_text s
     in if int k \<le> n \<and> n \<le> 21 then ds @ replicate (nat (n - int k)) 48
        else if 0 < n \<and> n \<le> 21 then take (nat n) ds @ js ''.'' @ drop (nat n) ds
        else if -6 < n \<and> n \<le> 0 then js ''0.'' @ replicate (nat (- n)) 48 @ ds
        else if k = 1 then ds @ exponent_text (n - 1)
        else take 1 ds @ js ''.'' @ drop 1 ds @ exponent_text (n - 1))"

definition positive_text :: "num \<Rightarrow> nat \<Rightarrow> nat \<Rightarrow> jstr" where
  "positive_text x p q = layout (shortest 17 x p q (dec_exponent p q) 1)"

text \<open>\<open>String(x)\<close>\<close>

fun num_text :: "num \<Rightarrow> jstr" where
  "num_text (NInt n) =
     (if \<bar>n\<bar> \<le> 2 ^ 53 then int_text n
      else (if n < 0 then js ''-'' else []) @ positive_text (NInt \<bar>n\<bar>) (nat \<bar>n\<bar>) 1)"
| "num_text (NFrac m k) =
     (if m < 0 then js ''-'' else []) @ positive_text (NFrac \<bar>m\<bar> k) (nat \<bar>m\<bar>) (2 ^ k)"
| "num_text (NInf neg) = (if neg then js ''-Infinity'' else js ''Infinity'')"

text \<open>\<open>Number.isInteger\<close>; it is false for the infinities.\<close>

fun is_integer :: "num \<Rightarrow> bool" where
  "is_integer (NInt _) = True"
| "is_integer (NFrac _ _) = False"
| "is_integer (NInf _) = False"

section \<open>Facts on decimal text\<close>

lemma dec_digits_nonempty [simp]: "dec_digits n \<noteq> []"
  by (subst dec_digits.simps) simp

lemma dec_digits_lt: "d \<in> set (dec_digits n) \<Longrightarrow> d < 10"
proof (induction n rule: dec_digits.induct)
  case (1 n)
  then show ?case
    by (cases "n < 10") (auto simp: dec_digits.simps [of n])
qed

definition digits_value :: "nat list \<Rightarrow> nat" where
  "digits_value ds = foldl (\<lambda>a d. 10 * a + d) 0 ds"

lemma digits_value_snoc [simp]: "digits_value (ds @ [d]) = 10 * digits_value ds + d"
  by (simp add: digits_value_def)

lemma digits_value_dec_digits [simp]: "digits_value (dec_digits n) = n"
proof (induction n rule: dec_digits.induct)
  case (1 n)
  then show ?case
    by (cases "n < 10") (simp_all add: dec_digits.simps [of n], simp add: digits_value_def)
qed

lemma dec_digits_hd: "0 < n \<Longrightarrow> hd (dec_digits n) \<noteq> 0"
proof (induction n rule: dec_digits.induct)
  case (1 n)
  then show ?case
    by (cases "n < 10") (simp_all add: dec_digits.simps [of n])
qed

lemma dec_digits_zero: "dec_digits 0 = [0]"
  by (simp add: dec_digits.simps)

lemma dec_digits_leading: "hd (dec_digits n) = 0 \<longleftrightarrow> n = 0"
  using dec_digits_hd [of n] by (cases "n = 0") (auto simp: dec_digits_zero)

end
