(* ===== verification/Utf8.thy ===== *)
theory Utf8
  imports Prelude
begin

text \<open>
  UTF-16 and UTF-8 as the hosts use them: \<open>TextEncoder.encode\<close> and \<open>Buffer.from(s, 'utf8')\<close>
  (lone surrogates become U+FFFD), \<open>Buffer.toString('utf8')\<close> and \<open>readFileSync(p, 'utf8')\<close> (the
  WHATWG decoder, ill-formed input becomes U+FFFD), and \<open>TextDecoder.decode\<close>, which also drops a
  leading byte order mark.
\<close>

section \<open>Code points of a string\<close>

definition is_high :: "cu \<Rightarrow> bool" where
  "is_high u \<longleftrightarrow> 0xD800 \<le> unat u \<and> unat u < 0xDC00"

definition is_low :: "cu \<Rightarrow> bool" where
  "is_low u \<longleftrightarrow> 0xDC00 \<le> unat u \<and> unat u < 0xE000"

definition pair_cp :: "cu \<Rightarrow> cu \<Rightarrow> nat" where
  "pair_cp h l = 0x10000 + (unat h - 0xD800) * 0x400 + (unat l - 0xDC00)"

text \<open>String iteration: a surrogate pair is one code point, a lone surrogate stands for itself.\<close>

fun code_points :: "jstr \<Rightarrow> nat list" where
  "code_points [] = []"
| "code_points [u] = [unat u]"
| "code_points (u # v # s) =
     (if is_high u \<and> is_low v then pair_cp u v # code_points s
      else unat u # code_points (v # s))"

definition units_of_cp :: "nat \<Rightarrow> jstr" where
  "units_of_cp c =
     (if c < 0x10000 then [of_nat c]
      else [of_nat (0xD800 + (c - 0x10000) div 0x400), of_nat (0xDC00 + (c - 0x10000) mod 0x400)])"

definition units_of_cps :: "nat list \<Rightarrow> jstr" where
  "units_of_cps cs = concat (map units_of_cp cs)"

definition is_surrogate :: "nat \<Rightarrow> bool" where
  "is_surrogate c \<longleftrightarrow> 0xD800 \<le> c \<and> c < 0xE000"

definition is_scalar :: "nat \<Rightarrow> bool" where
  "is_scalar c \<longleftrightarrow> c < 0x110000 \<and> \<not> is_surrogate c"

definition well_formed :: "jstr \<Rightarrow> bool" where
  "well_formed s \<longleftrightarrow> list_all is_scalar (code_points s)"

section \<open>Encoding\<close>

definition encode_cp :: "nat \<Rightarrow> byte list" where
  "encode_cp c =
     (if c < 0x80 then [of_nat c]
      else if c < 0x800 then [of_nat (0xC0 + c div 0x40), of_nat (0x80 + c mod 0x40)]
      else if c < 0x10000 then
        [of_nat (0xE0 + c div 0x1000), of_nat (0x80 + c div 0x40 mod 0x40),
         of_nat (0x80 + c mod 0x40)]
      else
        [of_nat (0xF0 + c div 0x40000), of_nat (0x80 + c div 0x1000 mod 0x40),
         of_nat (0x80 + c div 0x40 mod 0x40), of_nat (0x80 + c mod 0x40)])"

definition replacement :: nat where
  "replacement = 0xFFFD"

definition to_scalar :: "nat \<Rightarrow> nat" where
  "to_scalar c = (if is_surrogate c then replacement else c)"

definition encode_cps :: "nat list \<Rightarrow> byte list" where
  "encode_cps cs = concat (map encode_cp cs)"

definition utf8_encode :: "jstr \<Rightarrow> byte list" where
  "utf8_encode s = encode_cps (map to_scalar (code_points s))"

section \<open>Decoding\<close>

definition cont_in :: "nat \<Rightarrow> nat \<Rightarrow> byte \<Rightarrow> bool" where
  "cont_in lo hi b \<longleftrightarrow> lo \<le> unat b \<and> unat b \<le> hi"

text \<open>The bounds of the second byte, which exclude overlong forms, surrogates and above U+10FFFF.\<close>

definition second_lo :: "nat \<Rightarrow> nat" where
  "second_lo n = (if n = 0xE0 then 0xA0 else if n = 0xF0 then 0x90 else 0x80)"

definition second_hi :: "nat \<Rightarrow> nat" where
  "second_hi n = (if n = 0xED then 0x9F else if n = 0xF4 then 0x8F else 0xBF)"

text \<open>
  One step of the decoder: a code point and the bytes it consumed. A byte that cannot continue the
  sequence is not consumed, so it starts the next one.
\<close>

definition decode_step :: "byte \<Rightarrow> byte list \<Rightarrow> nat \<times> byte list" where
  "decode_step b bs =
     (let n = unat b; bad = (replacement, bs) in
      if n < 0x80 then (n, bs)
      else if n < 0xC2 \<or> 0xF4 < n then bad
      else case bs of [] \<Rightarrow> bad
      | c # cs \<Rightarrow>
        if \<not> cont_in (second_lo n) (second_hi n) c then bad
        else if n < 0xE0 then ((n - 0xC0) * 0x40 + (unat c - 0x80), cs)
        else case cs of [] \<Rightarrow> (replacement, cs)
        | d # ds \<Rightarrow>
          if \<not> cont_in 0x80 0xBF d then (replacement, cs)
          else if n < 0xF0 then
            ((n - 0xE0) * 0x1000 + (unat c - 0x80) * 0x40 + (unat d - 0x80), ds)
          else case ds of [] \<Rightarrow> (replacement, ds)
          | e # es \<Rightarrow>
            if \<not> cont_in 0x80 0xBF e then (replacement, ds)
            else ((n - 0xF0) * 0x40000 + (unat c - 0x80) * 0x1000 + (unat d - 0x80) * 0x40
                  + (unat e - 0x80), es))"

lemma decode_step_length: "length (snd (decode_step b bs)) \<le> length bs"
  by (auto simp: decode_step_def Let_def split: list.splits)

function decode_cps :: "byte list \<Rightarrow> nat list" where
  "decode_cps [] = []"
| "decode_cps (b # bs) = fst (decode_step b bs) # decode_cps (snd (decode_step b bs))"
  by pat_completeness auto
termination
  by (relation "measure length") (auto simp: le_imp_less_Suc decode_step_length)

text \<open>\<open>Buffer.toString('utf8')\<close>\<close>

definition utf8_decode :: "byte list \<Rightarrow> jstr" where
  "utf8_decode bs = units_of_cps (decode_cps bs)"

text \<open>\<open>new TextDecoder().decode(bs)\<close>: as above, without a leading byte order mark.\<close>

definition text_decode :: "byte list \<Rightarrow> jstr" where
  "text_decode bs =
     utf8_decode (if take 3 bs = [0xEF, 0xBB, 0xBF] then drop 3 bs else bs)"

section \<open>Code points and code units\<close>

lemma mod_lt: "0 < b \<Longrightarrow> (a::nat) mod b < b"
  by simp

lemma split2: "(c::nat) div 0x1000 * 0x1000 + c div 0x40 mod 0x40 * 0x40 + c mod 0x40 = c"
proof -
  have q: "c div 0x1000 = c div 0x40 div 0x40" by (simp add: div_mult2_eq [symmetric])
  have "c div 0x40 div 0x40 * 0x1000 + c div 0x40 mod 0x40 * 0x40
      = (c div 0x40 div 0x40 * 0x40 + c div 0x40 mod 0x40) * 0x40"
    by (simp only: add_mult_distrib mult.assoc)
  also have "\<dots> = c div 0x40 * 0x40" by (simp only: div_mult_mod_eq)
  finally show ?thesis by (simp only: q div_mult_mod_eq)
qed

lemma split3:
  "(c::nat) div 0x40000 * 0x40000 + c div 0x1000 mod 0x40 * 0x1000 + c div 0x40 mod 0x40 * 0x40
     + c mod 0x40 = c"
proof -
  have q: "c div 0x40000 = c div 0x1000 div 0x40" by (simp add: div_mult2_eq [symmetric])
  have "c div 0x1000 div 0x40 * 0x40000 + c div 0x1000 mod 0x40 * 0x1000
      = (c div 0x1000 div 0x40 * 0x40 + c div 0x1000 mod 0x40) * 0x1000"
    by (simp only: add_mult_distrib mult.assoc)
  also have "\<dots> = c div 0x1000 * 0x1000" by (simp only: div_mult_mod_eq)
  finally show ?thesis by (simp only: q split2)
qed

lemma mod_block:
  assumes "q * b \<le> (m::nat)" "m < q * b + r" "r \<le> b"
  shows "m mod b < r"
proof -
  obtain k where k: "m = q * b + k"
    using assms(1) le_Suc_ex by blast
  with assms have "k < r" "k < b" by auto
  then show ?thesis by (simp add: k)
qed

lemma unat_cu_lt: "unat (u :: cu) < 0x10000"
  using unsigned_less [of u] by simp

lemma unat_of_nat_cu: "n < 0x10000 \<Longrightarrow> unat (of_nat n :: cu) = n"
  by (simp add: unat_of_nat take_bit_nat_eq_self)

lemma unat_of_nat_byte: "n < 0x100 \<Longrightarrow> unat (of_nat n :: byte) = n"
  by (simp add: unat_of_nat take_bit_nat_eq_self)

lemma units_of_pair:
  assumes "is_high u" "is_low v"
  shows "units_of_cp (pair_cp u v) = [u, v]"
proof -
  let ?c = "pair_cp u v - 0x10000"
  have "?c = (unat u - 0xD800) * 0x400 + (unat v - 0xDC00)" and l: "unat v - 0xDC00 < 0x400"
    using assms by (auto simp: pair_cp_def is_high_def is_low_def)
  then have "?c div 0x400 = unat u - 0xD800" "?c mod 0x400 = unat v - 0xDC00"
    by simp_all
  with assms show ?thesis
    by (simp add: units_of_cp_def pair_cp_def is_high_def is_low_def)
qed

lemma units_of_unit: "units_of_cp (unat u) = [u]"
  using unat_cu_lt [of u] by (simp add: units_of_cp_def)

theorem units_code_points [simp]: "units_of_cps (code_points s) = s"
  by (induction s rule: code_points.induct)
     (simp_all add: units_of_cps_def units_of_pair units_of_unit)

lemma code_points_bound: "c \<in> set (code_points s) \<Longrightarrow> c < 0x110000"
  by (induction s rule: code_points.induct)
     (auto simp: pair_cp_def is_high_def is_low_def split: if_splits
       intro: less_trans [OF unat_cu_lt])

lemma code_points_eq_Nil [simp]: "code_points s = [] \<longleftrightarrow> s = []"
  by (cases s rule: code_points.cases) auto

lemma is_scalar_cases:
  assumes "is_scalar c"
  obtains (ascii) "c < 0x80" | (two) "0x80 \<le> c" "c < 0x800"
    | (three) "0x800 \<le> c" "c < 0x10000" "\<not> is_surrogate c"
    | (four) "0x10000 \<le> c" "c < 0x110000"
  using assms unfolding is_scalar_def by fastforce

lemma code_points_bmp:
  assumes "c < 0x10000" "\<not> is_surrogate c"
  shows "code_points (of_nat c # s) = c # code_points s"
proof -
  have "\<not> is_high (of_nat c)"
    using assms by (auto simp: is_high_def is_surrogate_def unat_of_nat_cu)
  then show ?thesis
    using assms by (cases s) (simp_all add: unat_of_nat_cu)
qed

lemma code_points_supplementary:
  assumes "0x10000 \<le> c" "c < 0x110000"
  shows "code_points (units_of_cp c @ s) = c # code_points s"
proof -
  define d where "d = c - 0x10000"
  have d: "c = 0x10000 + d" "d < 0x100000" using assms by (auto simp: d_def)
  have h: "unat (of_nat (0xD800 + d div 0x400) :: cu) = 0xD800 + d div 0x400"
    by (rule unat_of_nat_cu) (use d in linarith)
  have l: "unat (of_nat (0xDC00 + d mod 0x400) :: cu) = 0xDC00 + d mod 0x400"
    by (rule unat_of_nat_cu) (use mod_lt [of 1024 d] in linarith)
  have "is_high (of_nat (0xD800 + d div 0x400))" "is_low (of_nat (0xDC00 + d mod 0x400))"
    unfolding is_high_def is_low_def h l using d by auto
  moreover have "pair_cp (of_nat (0xD800 + d div 0x400)) (of_nat (0xDC00 + d mod 0x400)) = c"
    unfolding pair_cp_def h l using d by simp
  ultimately show ?thesis
    using d by (simp add: units_of_cp_def)
qed

theorem code_points_units:
  "list_all is_scalar cs \<Longrightarrow> code_points (units_of_cps cs) = cs"
proof (induction cs)
  case Nil
  then show ?case by (simp add: units_of_cps_def)
next
  case (Cons c cs)
  then have IH: "code_points (units_of_cps cs) = cs" and c: "is_scalar c" by simp_all
  have "units_of_cps (c # cs) = units_of_cp c @ units_of_cps cs"
    by (simp add: units_of_cps_def)
  moreover have "code_points (units_of_cp c @ units_of_cps cs) = c # cs"
  proof (cases "c < 0x10000")
    case True
    with c show ?thesis
      by (simp add: units_of_cp_def code_points_bmp is_scalar_def IH)
  next
    case False
    with c show ?thesis
      by (simp add: code_points_supplementary is_scalar_def IH)
  qed
  ultimately show ?case by simp
qed

section \<open>The UTF-8 round trip\<close>

lemma decode_encode_cp:
  assumes "is_scalar c"
  shows "decode_cps (encode_cp c @ bs) = c # decode_cps bs"
proof -
  have cont: "unat (of_nat (0x80 + k mod 0x40) :: byte) = 0x80 + k mod 0x40" for k :: nat
    by (rule unat_of_nat_byte) (use mod_lt [of 64 k] in linarith)
  have small: "k mod 0x40 \<le> 0x3F" for k :: nat
    using mod_lt [of 64 k] by linarith
  from assms show ?thesis
  proof (cases rule: is_scalar_cases)
    case ascii
    then show ?thesis
      by (simp add: encode_cp_def decode_step_def unat_of_nat_byte)
  next
    case two
    have b: "unat (of_nat (0xC0 + c div 0x40) :: byte) = 0xC0 + c div 0x40"
      by (rule unat_of_nat_byte) (use two in linarith)
    have "2 \<le> c div 0x40" "c div 0x40 < 0x20" using two by linarith+
    then have "decode_step (of_nat (0xC0 + c div 0x40)) (of_nat (0x80 + c mod 0x40) # bs)
        = (c div 0x40 * 0x40 + c mod 0x40, bs)"
      using small [of c]
      by (simp add: decode_step_def Let_def b cont cont_in_def second_lo_def second_hi_def
        del: of_nat_add div_mult_mod_eq)
    then show ?thesis
      using two by (simp add: encode_cp_def del: of_nat_add)
  next
    case three
    have b: "unat (of_nat (0xE0 + c div 0x1000) :: byte) = 0xE0 + c div 0x1000"
      by (rule unat_of_nat_byte) (use three in linarith)
    have t: "c div 0x1000 < 0x10" using three by linarith
    have lo: "second_lo (0xE0 + c div 0x1000) \<le> 0x80 + c div 0x40 mod 0x40"
    proof (cases "c div 0x1000 = 0")
      case True
      then have "c div 0x40 < 0x40" "0x20 \<le> c div 0x40" using three(1) by linarith+
      with True show ?thesis by (simp add: second_lo_def)
    next
      case False
      with t show ?thesis by (simp add: second_lo_def)
    qed
    have hi: "0x80 + c div 0x40 mod 0x40 \<le> second_hi (0xE0 + c div 0x1000)"
    proof (cases "c div 0x1000 = 0xD")
      case True
      then have "c < 0xD800"
        using three(3) by (auto simp: is_surrogate_def)
      then have "c div 0x40 < 0x360" "0x340 \<le> c div 0x40" using True by linarith+
      then have "c div 0x40 mod 0x40 < 0x20"
        by (intro mod_block [where q = 13]) simp_all
      with True show ?thesis by (simp add: second_hi_def)
    next
      case False
      then show ?thesis using small [of "c div 0x40"] t by (simp add: second_hi_def)
    qed
    have v: "c div 0x1000 * 0x1000 + c div 0x40 mod 0x40 * 0x40 + c mod 0x40 = c"
      by (rule split2)
    have "decode_step (of_nat (0xE0 + c div 0x1000))
        (of_nat (0x80 + c div 0x40 mod 0x40) # of_nat (0x80 + c mod 0x40) # bs) = (c, bs)"
      using small [of c] t lo hi v
      by (simp add: decode_step_def Let_def b cont cont_in_def del: of_nat_add)
    then show ?thesis
      using three by (simp add: encode_cp_def del: of_nat_add)
  next
    case four
    have b: "unat (of_nat (0xF0 + c div 0x40000) :: byte) = 0xF0 + c div 0x40000"
      by (rule unat_of_nat_byte) (use four in linarith)
    have t: "c div 0x40000 \<le> 4" using four by linarith
    have lo: "second_lo (0xF0 + c div 0x40000) \<le> 0x80 + c div 0x1000 mod 0x40"
    proof (cases "c div 0x40000 = 0")
      case True
      then have "c div 0x1000 < 0x40" "0x10 \<le> c div 0x1000" using four(1) by linarith+
      with True show ?thesis by (simp add: second_lo_def)
    next
      case False
      then show ?thesis by (simp add: second_lo_def)
    qed
    have hi: "0x80 + c div 0x1000 mod 0x40 \<le> second_hi (0xF0 + c div 0x40000)"
    proof (cases "c div 0x40000 = 4")
      case True
      then have "c div 0x1000 < 0x110" "0x100 \<le> c div 0x1000" using four(2) by linarith+
      then have "c div 0x1000 mod 0x40 < 0x10" 
        by (intro mod_block [where q = 4]) simp_all
      with True show ?thesis by (simp add: second_hi_def)
    next
      case False
      then show ?thesis using small [of "c div 0x1000"] t by (simp add: second_hi_def)
    qed
    have v: "c div 0x40000 * 0x40000 + c div 0x1000 mod 0x40 * 0x1000 + c div 0x40 mod 0x40 * 0x40
        + c mod 0x40 = c"
      by (rule split3)
    have "decode_step (of_nat (0xF0 + c div 0x40000))
        (of_nat (0x80 + c div 0x1000 mod 0x40) # of_nat (0x80 + c div 0x40 mod 0x40)
          # of_nat (0x80 + c mod 0x40) # bs) = (c, bs)"
      using small [of c] small [of "c div 0x40"] t lo hi v
      by (simp add: decode_step_def Let_def b cont cont_in_def del: of_nat_add)
    then show ?thesis
      using four by (simp add: encode_cp_def del: of_nat_add)
  qed
qed

lemma decode_encode_cps:
  "list_all is_scalar cs \<Longrightarrow> decode_cps (encode_cps cs @ bs) = cs @ decode_cps bs"
  by (induction cs) (simp_all add: encode_cps_def decode_encode_cp)

lemma to_scalar_scalar: "c < 0x110000 \<Longrightarrow> is_scalar (to_scalar c)"
  by (auto simp: to_scalar_def replacement_def is_scalar_def is_surrogate_def)

lemma to_scalar_id: "is_scalar c \<Longrightarrow> to_scalar c = c"
  by (simp add: to_scalar_def is_scalar_def)

lemma scalars_of_string: "list_all is_scalar (map to_scalar (code_points s))"
  by (auto simp: list_all_iff intro: to_scalar_scalar code_points_bound)

text \<open>What comes back from a round trip: the string with its lone surrogates replaced.\<close>

definition to_well_formed :: "jstr \<Rightarrow> jstr" where
  "to_well_formed s = units_of_cps (map to_scalar (code_points s))"

theorem utf8_decode_encode: "utf8_decode (utf8_encode s) = to_well_formed s"
  using decode_encode_cps [OF scalars_of_string, of s "[]"]
  by (simp add: utf8_decode_def utf8_encode_def to_well_formed_def)

lemma to_well_formed_id: "well_formed s \<Longrightarrow> to_well_formed s = s"
proof -
  assume "well_formed s"
  then have "map to_scalar (code_points s) = code_points s"
    by (auto simp: well_formed_def list_all_iff to_scalar_id intro: map_idI)
  then show ?thesis by (simp add: to_well_formed_def)
qed

theorem utf8_roundtrip: "well_formed s \<Longrightarrow> utf8_decode (utf8_encode s) = s"
  by (simp add: utf8_decode_encode to_well_formed_id)

section \<open>Well-formed strings\<close>

lemma code_points_units_append:
  "list_all is_scalar cs \<Longrightarrow> code_points (units_of_cps cs @ s) = cs @ code_points s"
proof (induction cs)
  case Nil
  then show ?case by (simp add: units_of_cps_def)
next
  case (Cons c cs)
  then have "is_scalar c" and IH: "code_points (units_of_cps cs @ s) = cs @ code_points s"
    by simp_all
  then show ?case
    by (cases "c < 0x10000")
       (simp_all add: units_of_cps_def code_points_supplementary is_scalar_def,
        simp add: units_of_cp_def code_points_bmp)
qed

lemma code_points_append:
  assumes "well_formed s"
  shows "code_points (s @ t) = code_points s @ code_points t"
  using code_points_units_append [of "code_points s" t] assms by (simp add: well_formed_def)

lemma well_formed_append [intro]:
  "well_formed s \<Longrightarrow> well_formed t \<Longrightarrow> well_formed (s @ t)"
  using code_points_append [of s t] by (simp add: well_formed_def)

lemma well_formed_Nil [simp]: "well_formed []"
  by (simp add: well_formed_def)

lemma well_formed_units [intro]: "list_all is_scalar cs \<Longrightarrow> well_formed (units_of_cps cs)"
  by (simp add: well_formed_def code_points_units)

lemma well_formed_unit_cp [intro]: "is_scalar c \<Longrightarrow> well_formed (units_of_cp c)"
  using well_formed_units [of "[c]"] by (simp add: units_of_cps_def)

lemma well_formed_ascii1: "unat c < 0x80 \<Longrightarrow> well_formed [c]"
  by (simp add: well_formed_def is_scalar_def is_surrogate_def)

lemma well_formed_ascii [intro]: "\<forall>c \<in> set s. unat c < 0x80 \<Longrightarrow> well_formed s"
proof (induction s)
  case Nil
  then show ?case by simp
next
  case (Cons c s)
  then have "well_formed ([c] @ s)"
    by (intro well_formed_append well_formed_ascii1) simp_all
  then show ?case by simp
qed

lemma well_formed_concat: "\<forall>s \<in> set ss. well_formed s \<Longrightarrow> well_formed (concat ss)"
  by (induction ss) auto

lemma scalar_below_surrogates: "c < 0xD800 \<Longrightarrow> is_scalar c"
  by (simp add: is_scalar_def is_surrogate_def)

lemma scalar_above_surrogates: "0xE000 \<le> c \<Longrightarrow> c < 0x110000 \<Longrightarrow> is_scalar c"
  by (simp add: is_scalar_def is_surrogate_def)

lemma decoded_two:
  assumes "n < 0xE0" "cont_in lo 0xBF c"
  shows "is_scalar ((n - 0xC0) * 0x40 + (unat c - 0x80))"
  by (rule scalar_below_surrogates) (use assms in \<open>unfold cont_in_def, linarith\<close>)

lemma decoded_three:
  assumes "0xE0 \<le> n" "n < 0xF0" "cont_in (second_lo n) (second_hi n) c" "cont_in 0x80 0xBF d"
  shows "is_scalar ((n - 0xE0) * 0x1000 + (unat c - 0x80) * 0x40 + (unat d - 0x80))"
proof -
  consider "n < 0xED" | "n = 0xED" | "0xED < n" by linarith
  then show ?thesis
  proof cases
    case 1
    have "unat c \<le> 0xBF" "unat d \<le> 0xBF"
      using assms 1 by (auto simp: cont_in_def second_hi_def)
    then show ?thesis using 1 by (intro scalar_below_surrogates) linarith
  next
    case 2
    have "unat c \<le> 0x9F" "unat d \<le> 0xBF"
      using assms 2 by (auto simp: cont_in_def second_hi_def)
    then show ?thesis using 2 by (intro scalar_below_surrogates) linarith
  next
    case 3
    have "unat c \<le> 0xBF" "unat d \<le> 0xBF"
      using assms 3 by (auto simp: cont_in_def second_hi_def split: if_splits)
    then show ?thesis using 3 assms(2) by (intro scalar_above_surrogates) linarith+
  qed
qed

lemma decoded_four:
  assumes "0xF0 \<le> n" "n \<le> 0xF4" "cont_in (second_lo n) (second_hi n) c"
    "cont_in 0x80 0xBF d" "cont_in 0x80 0xBF e"
  shows "is_scalar ((n - 0xF0) * 0x40000 + (unat c - 0x80) * 0x1000 + (unat d - 0x80) * 0x40
           + (unat e - 0x80))"
proof (rule scalar_above_surrogates)
  have d: "unat d \<le> 0xBF" "unat e \<le> 0xBF" "unat c \<le> 0xBF"
    using assms by (auto simp: cont_in_def second_hi_def split: if_splits)
  show "0xE000 \<le> (n - 0xF0) * 0x40000 + (unat c - 0x80) * 0x1000 + (unat d - 0x80) * 0x40
      + (unat e - 0x80)"
  proof (cases "n = 0xF0")
    case True
    then have "0x90 \<le> unat c" using assms by (simp add: cont_in_def second_lo_def)
    then show ?thesis by linarith
  next
    case False
    with assms show ?thesis by linarith
  qed
  show "(n - 0xF0) * 0x40000 + (unat c - 0x80) * 0x1000 + (unat d - 0x80) * 0x40
      + (unat e - 0x80) < 0x110000"
  proof (cases "n = 0xF4")
    case True
    then have "unat c \<le> 0x8F" using assms by (simp add: cont_in_def second_hi_def)
    with True d show ?thesis by linarith
  next
    case False
    with assms d show ?thesis by linarith
  qed
qed

lemma replacement_scalar: "is_scalar replacement"
  by (simp add: is_scalar_def is_surrogate_def replacement_def)

lemma cont_second_hi: "cont_in lo (second_hi n) c \<Longrightarrow> cont_in lo 0xBF c"
  by (auto simp: cont_in_def second_hi_def split: if_splits)

lemma decode_step_scalar: "is_scalar (fst (decode_step b bs))"
  unfolding decode_step_def Let_def
  by (auto split: list.split simp: replacement_scalar scalar_below_surrogates
      intro!: decoded_two decoded_three decoded_four intro: cont_second_hi)

lemma decode_cps_scalar: "list_all is_scalar (decode_cps bs)"
  by (induction bs rule: decode_cps.induct) (simp_all add: decode_step_scalar)

text \<open>The decoder returns a well-formed string whatever the bytes are.\<close>

theorem utf8_decode_well_formed: "well_formed (utf8_decode bs)"
  by (simp add: utf8_decode_def well_formed_units decode_cps_scalar)

section \<open>The byte order mark\<close>

text \<open>\<open>TextDecoder\<close> drops a leading mark, so a string that starts with one does not come back whole.\<close>

definition drop_bom :: "jstr \<Rightarrow> jstr" where
  "drop_bom s = (if s \<noteq> [] \<and> hd s = 0xFEFF then tl s else s)"

lemma code_points_bom: "code_points (0xFEFF # s) = 0xFEFF # code_points s"
  by (cases s) (simp_all add: is_high_def)

lemma encode_bom: "encode_cp 0xFEFF = [0xEF, 0xBB, 0xBF]"
  by (simp add: encode_cp_def)

lemma bom_scalar: "is_scalar 0xFEFF" "to_scalar 0xFEFF = 0xFEFF"
  by (simp_all add: is_scalar_def is_surrogate_def to_scalar_def)

lemma utf8_encode_bom: "utf8_encode (0xFEFF # s) = [0xEF, 0xBB, 0xBF] @ utf8_encode s"
  by (simp add: utf8_encode_def code_points_bom encode_cps_def bom_scalar encode_bom)

lemma encoding_starts_bom: "take 3 (utf8_encode s) = [0xEF, 0xBB, 0xBF] \<longleftrightarrow> s \<noteq> [] \<and> hd s = 0xFEFF"
proof
  assume "take 3 (utf8_encode s) = [0xEF, 0xBB, 0xBF]"
  then have "utf8_encode s = encode_cps [0xFEFF] @ drop 3 (utf8_encode s)"
    by (metis append_take_drop_id encode_bom encode_cps_def concat.simps(1,2) list.simps(8,9) append_Nil2)
  then have "decode_cps (utf8_encode s) = 0xFEFF # decode_cps (drop 3 (utf8_encode s))"
    using decode_encode_cps [of "[0xFEFF]" "drop 3 (utf8_encode s)"] bom_scalar by simp
  moreover have "decode_cps (utf8_encode s) = map to_scalar (code_points s)"
    using decode_encode_cps [OF scalars_of_string, of s "[]"] by (simp add: utf8_encode_def)
  ultimately obtain c cs where cs: "code_points s = c # cs" "to_scalar c = 0xFEFF" by auto
  then have "c = 0xFEFF" by (auto simp: to_scalar_def replacement_def split: if_splits)
  then have "s = units_of_cps (0xFEFF # cs)" using cs(1) units_code_points [of s] by simp
  then show "s \<noteq> [] \<and> hd s = 0xFEFF" by (simp add: units_of_cps_def units_of_cp_def)
next
  assume "s \<noteq> [] \<and> hd s = 0xFEFF"
  then obtain t where "s = 0xFEFF # t" by (cases s) auto
  then show "take 3 (utf8_encode s) = [0xEF, 0xBB, 0xBF]"
    by (simp add: utf8_encode_bom)
qed

theorem text_decode_encode: "text_decode (utf8_encode s) = to_well_formed (drop_bom s)"
proof (cases "s \<noteq> [] \<and> hd s = 0xFEFF")
  case True
  then obtain t where "s = 0xFEFF # t" by (cases s) auto
  then have "drop 3 (utf8_encode s) = utf8_encode (drop_bom s)"
    by (simp add: drop_bom_def utf8_encode_bom)
  then show ?thesis using True by (simp add: text_decode_def encoding_starts_bom utf8_decode_encode)
next
  case False
  then show ?thesis
    by (simp only: text_decode_def encoding_starts_bom drop_bom_def if_False utf8_decode_encode)
qed

end
