(* ===== verification/Json.thy ===== *)
theory Json
  imports Js_Number Utf8
begin

text \<open>
  JSON values as JavaScript values: \<open>JSON.parse\<close>, \<open>JSON.stringify\<close>, property reads and writes with
  the language's key order, \<open>ToString\<close>, truthiness, and the round trip between text and value.
\<close>

section \<open>Values\<close>

datatype jv =
    JNull
  | JBool bool
  | JNum num
  | JStr jstr
  | JArr "jv list"
  | JObj "(jstr \<times> jv) list"

text \<open>
  An object is its own properties in the order \<open>Object.keys\<close> lists them: array indices ascending,
  then the other keys in order of creation. \<open>index_key k\<close> reads a key as an array index.
\<close>

definition is_digit :: "cu \<Rightarrow> bool" where
  "is_digit c \<longleftrightarrow> 48 \<le> unat c \<and> unat c \<le> 57"

definition digits_of :: "jstr \<Rightarrow> nat list" where
  "digits_of s = map (\<lambda>c. unat c - 48) s"

definition index_key :: "jstr \<Rightarrow> nat option" where
  "index_key k =
     (if k \<noteq> [] \<and> list_all is_digit k \<and> (hd k \<noteq> 48 \<or> length k = 1)
         \<and> digits_value (digits_of k) \<le> 2 ^ 32 - 2
      then Some (digits_value (digits_of k)) else None)"

definition key_before :: "jstr \<Rightarrow> jstr \<Rightarrow> bool" where
  "key_before k l =
     (case index_key k of
        Some i \<Rightarrow> (case index_key l of Some j \<Rightarrow> i < j | None \<Rightarrow> True)
      | None \<Rightarrow> (case index_key l of Some j \<Rightarrow> False | None \<Rightarrow> k \<noteq> l))"

definition own_order :: "jstr list \<Rightarrow> bool" where
  "own_order ks \<longleftrightarrow> sorted_wrt key_before ks"

text \<open>\<open>o[k] = v\<close> on own properties.\<close>

definition obj_put :: "(jstr \<times> 'v) list \<Rightarrow> jstr \<Rightarrow> 'v \<Rightarrow> (jstr \<times> 'v) list" where
  "obj_put kvs k v =
     (if k \<in> fst ` set kvs then map (\<lambda>(l, w). (l, if l = k then v else w)) kvs
      else case index_key k of
        None \<Rightarrow> kvs @ [(k, v)]
      | Some i \<Rightarrow> takeWhile (\<lambda>(l, w). key_before l k) kvs @ [(k, v)]
                  @ dropWhile (\<lambda>(l, w). key_before l k) kvs)"

fun obj_puts :: "(jstr \<times> 'v) list \<Rightarrow> (jstr \<times> 'v) list \<Rightarrow> (jstr \<times> 'v) list" where
  "obj_puts acc [] = acc"
| "obj_puts acc ((k, v) # kvs) = obj_puts (obj_put acc k v) kvs"

text \<open>An object literal; \<open>JSON.stringify\<close> leaves out the properties whose value is undefined.\<close>

fun obj_defined :: "(jstr \<times> jv option) list \<Rightarrow> (jstr \<times> jv) list" where
  "obj_defined [] = []"
| "obj_defined ((k, None) # kvs) = obj_defined kvs"
| "obj_defined ((k, Some v) # kvs) = (k, v) # obj_defined kvs"

section \<open>JSON.stringify\<close>

definition hex_digit :: "nat \<Rightarrow> cu" where
  "hex_digit d = of_nat (if d < 10 then 48 + d else 87 + d)"

definition unicode_escape :: "nat \<Rightarrow> jstr" where
  "unicode_escape c =
     [92, 117, hex_digit (c div 0x1000 mod 16), hex_digit (c div 0x100 mod 16),
      hex_digit (c div 0x10 mod 16), hex_digit (c mod 16)]"

definition quote_cp :: "nat \<Rightarrow> jstr" where
  "quote_cp c =
     (if c = 8 then [92, 98] else if c = 9 then [92, 116] else if c = 10 then [92, 110]
      else if c = 12 then [92, 102] else if c = 13 then [92, 114]
      else if c = 34 then [92, 34] else if c = 92 then [92, 92]
      else if c < 32 \<or> is_surrogate c then unicode_escape c
      else units_of_cp c)"

definition quote :: "jstr \<Rightarrow> jstr" where
  "quote s = 34 # concat (map quote_cp (code_points s)) @ [34]"

fun join :: "jstr \<Rightarrow> jstr list \<Rightarrow> jstr" where
  "join sep [] = []"
| "join sep [s] = s"
| "join sep (s # t # ss) = s @ sep @ join sep (t # ss)"

definition json_num :: "num \<Rightarrow> jstr" where
  "json_num n = (case n of NInf _ \<Rightarrow> js ''null'' | _ \<Rightarrow> num_text n)"

fun stringify :: "jv \<Rightarrow> jstr" where
  "stringify JNull = js ''null''"
| "stringify (JBool b) = (if b then js ''true'' else js ''false'')"
| "stringify (JNum n) = json_num n"
| "stringify (JStr s) = quote s"
| "stringify (JArr vs) = 91 # join [44] (map stringify vs) @ [93]"
| "stringify (JObj kvs) =
     123 # join [44] (map (\<lambda>kv. quote (fst kv) @ 58 # stringify (snd kv)) kvs) @ [125]"

section \<open>JSON.parse\<close>

definition is_ws :: "cu \<Rightarrow> bool" where
  "is_ws c \<longleftrightarrow> c = 32 \<or> c = 10 \<or> c = 13 \<or> c = 9"

definition skip_ws :: "jstr \<Rightarrow> jstr" where
  "skip_ws s = dropWhile is_ws s"

definition hex_value :: "cu \<Rightarrow> nat option" where
  "hex_value c =
     (let n = unat c in
      if 48 \<le> n \<and> n \<le> 57 then Some (n - 48)
      else if 97 \<le> n \<and> n \<le> 102 then Some (n - 87)
      else if 65 \<le> n \<and> n \<le> 70 then Some (n - 55) else None)"

definition hex4 :: "cu \<Rightarrow> cu \<Rightarrow> cu \<Rightarrow> cu \<Rightarrow> cu option" where
  "hex4 a b c d =
     (case (hex_value a, hex_value b, hex_value c, hex_value d) of
        (Some p, Some q, Some r, Some t) \<Rightarrow> Some (of_nat (p * 0x1000 + q * 0x100 + r * 0x10 + t))
      | _ \<Rightarrow> None)"

definition simple_escape :: "cu \<Rightarrow> cu option" where
  "simple_escape e =
     (if e = 34 then Some 34 else if e = 92 then Some 92 else if e = 47 then Some 47
      else if e = 98 then Some 8 else if e = 102 then Some 12 else if e = 110 then Some 10
      else if e = 114 then Some 13 else if e = 116 then Some 9 else None)"

text \<open>One character of a string literal: the unit it denotes and what follows.\<close>

definition parse_char :: "cu \<Rightarrow> jstr \<Rightarrow> (cu \<times> jstr) option" where
  "parse_char c s =
     (if unat c < 32 then None
      else if c \<noteq> 92 then Some (c, s)
      else case s of
        [] \<Rightarrow> None
      | e # s' \<Rightarrow>
          if e = 117 then
            (case s' of
               a # b # d # f # s'' \<Rightarrow> map_option (\<lambda>u. (u, s'')) (hex4 a b d f)
             | _ \<Rightarrow> None)
          else map_option (\<lambda>u. (u, s')) (simple_escape e))"

lemma parse_char_length: "parse_char c s = Some (u, r) \<Longrightarrow> length r \<le> length s"
  by (auto simp: parse_char_def split: if_splits list.splits)

function parse_string :: "jstr \<Rightarrow> (jstr \<times> jstr) option" where
  "parse_string [] = None"
| "parse_string (c # s) =
     (if c = 34 then Some ([], s)
      else case parse_char c s of
        None \<Rightarrow> None
      | Some (u, r) \<Rightarrow> map_option (\<lambda>(us, t). (u # us, t)) (parse_string r))"
  by pat_completeness auto
termination
  by (relation "measure length") (auto dest: parse_char_length)

definition split_digits :: "jstr \<Rightarrow> nat list \<times> jstr" where
  "split_digits s = (digits_of (takeWhile is_digit s), dropWhile is_digit s)"

definition parse_fraction :: "jstr \<Rightarrow> (nat list \<times> jstr) option" where
  "parse_fraction s =
     (case s of
        [] \<Rightarrow> Some ([], [])
      | c # s' \<Rightarrow>
          if c = 46 then
            (let (ds, r) = split_digits s' in if ds = [] then None else Some (ds, r))
          else Some ([], s))"

definition parse_exponent :: "jstr \<Rightarrow> (int \<times> jstr) option" where
  "parse_exponent s =
     (case s of
        [] \<Rightarrow> Some (0, [])
      | c # s' \<Rightarrow>
          if c = 101 \<or> c = 69 then
            (let neg = (s' \<noteq> [] \<and> hd s' = 45);
                 signed = (s' \<noteq> [] \<and> (hd s' = 45 \<or> hd s' = 43));
                 (ds, r) = split_digits (if signed then tl s' else s');
                 e = int (digits_value ds)
             in if ds = [] then None else Some (if neg then - e else e, r))
          else Some (0, s))"

definition parse_int_part :: "jstr \<Rightarrow> (nat list \<times> jstr) option" where
  "parse_int_part s =
     (case s of
        [] \<Rightarrow> None
      | c # s' \<Rightarrow>
          if c = 48 then Some ([0], s')
          else let (ds, r) = split_digits s in if ds = [] then None else Some (ds, r))"

definition parse_number :: "jstr \<Rightarrow> (num \<times> jstr) option" where
  "parse_number s =
     (let neg = (s \<noteq> [] \<and> hd s = 45) in
      case parse_int_part (if neg then tl s else s) of
        None \<Rightarrow> None
      | Some (ds, r) \<Rightarrow>
        (case parse_fraction r of
           None \<Rightarrow> None
         | Some (fs, t) \<Rightarrow>
           (case parse_exponent t of
              None \<Rightarrow> None
            | Some (e, u) \<Rightarrow>
                Some (decimal_double neg (digits_value (ds @ fs)) (e - int (length fs)), u))))"

definition strip_prefix :: "jstr \<Rightarrow> jstr \<Rightarrow> jstr option" where
  "strip_prefix p s = (if take (length p) s = p then Some (drop (length p) s) else None)"

definition parse_literal :: "jstr \<Rightarrow> (jv \<times> jstr) option" where
  "parse_literal s =
     (case strip_prefix (js ''null'') s of
        Some r \<Rightarrow> Some (JNull, r)
      | None \<Rightarrow>
        (case strip_prefix (js ''true'') s of
           Some r \<Rightarrow> Some (JBool True, r)
         | None \<Rightarrow> map_option (\<lambda>r. (JBool False, r)) (strip_prefix (js ''false'') s)))"

definition parse_scalar :: "cu \<Rightarrow> jstr \<Rightarrow> (jv \<times> jstr) option" where
  "parse_scalar c r =
     (if c = 34 then map_option (\<lambda>(s, t). (JStr s, t)) (parse_string r)
      else if c = 45 \<or> is_digit c then map_option (\<lambda>(n, t). (JNum n, t)) (parse_number (c # r))
      else parse_literal (c # r))"

text \<open>The recursive descent, with fuel for its depth; \<open>json_parse\<close> supplies enough.\<close>

fun parse_value :: "nat \<Rightarrow> jstr \<Rightarrow> (jv \<times> jstr) option"
  and parse_elems :: "nat \<Rightarrow> jstr \<Rightarrow> (jv list \<times> jstr) option"
  and parse_members :: "nat \<Rightarrow> jstr \<Rightarrow> ((jstr \<times> jv) list \<times> jstr) option" where
  "parse_value 0 s = None"
| "parse_value (Suc n) s =
     (case skip_ws s of
        [] \<Rightarrow> None
      | c # r \<Rightarrow>
          if c = 91 then
            (if skip_ws r \<noteq> [] \<and> hd (skip_ws r) = 93 then Some (JArr [], tl (skip_ws r))
             else map_option (\<lambda>(vs, t). (JArr vs, t)) (parse_elems n r))
          else if c = 123 then
            (if skip_ws r \<noteq> [] \<and> hd (skip_ws r) = 125 then Some (JObj [], tl (skip_ws r))
             else map_option (\<lambda>(kvs, t). (JObj (obj_puts [] kvs), t)) (parse_members n r))
          else parse_scalar c r)"
| "parse_elems 0 s = None"
| "parse_elems (Suc n) s =
     (case parse_value n s of
        None \<Rightarrow> None
      | Some (v, r) \<Rightarrow>
          (case skip_ws r of
             [] \<Rightarrow> None
           | c # t \<Rightarrow>
               if c = 44 then map_option (\<lambda>(vs, u). (v # vs, u)) (parse_elems n t)
               else if c = 93 then Some ([v], t) else None))"
| "parse_members 0 s = None"
| "parse_members (Suc n) s =
     (case skip_ws s of
        [] \<Rightarrow> None
      | q # s' \<Rightarrow>
          if q \<noteq> 34 then None
          else case parse_string s' of
            None \<Rightarrow> None
          | Some (k, r) \<Rightarrow>
              (case skip_ws r of
                 [] \<Rightarrow> None
               | c # t \<Rightarrow>
                   if c \<noteq> 58 then None
                   else case parse_value n t of
                     None \<Rightarrow> None
                   | Some (v, u) \<Rightarrow>
                       (case skip_ws u of
                          [] \<Rightarrow> None
                        | d # w \<Rightarrow>
                            if d = 44 then
                              map_option (\<lambda>(kvs, x). ((k, v) # kvs, x)) (parse_members n w)
                            else if d = 125 then Some ([(k, v)], w) else None)))"

definition json_parse :: "jstr \<Rightarrow> exn + jv" where
  "json_parse s =
     (case parse_value (2 * length s + 2) s of
        Some (v, r) \<Rightarrow> if skip_ws r = [] then Inr v else Inl (Fault Bad_json)
      | None \<Rightarrow> Inl (Fault Bad_json))"

section \<open>Property reads and coercions\<close>

text \<open>
  \<open>v.k\<close> for a key that no built-in prototype has; None is undefined. Reading from null throws.
\<close>

definition get_prop :: "jv \<Rightarrow> jstr \<Rightarrow> exn + jv option" where
  "get_prop v k =
     (case v of
        JNull \<Rightarrow> Inl (Fault (Undefined_base k))
      | JObj kvs \<Rightarrow> Inr (map_of kvs k)
      | _ \<Rightarrow> Inr None)"

text \<open>\<open>ToString\<close>. An own \<open>toString\<close> of a JSON object cannot be called, so it throws.\<close>

fun to_string :: "jv \<Rightarrow> exn + jstr" and join_strings :: "jv list \<Rightarrow> exn + jstr list" where
  "to_string JNull = Inr (js ''null'')"
| "to_string (JBool b) = Inr (if b then js ''true'' else js ''false'')"
| "to_string (JNum n) = Inr (num_text n)"
| "to_string (JStr s) = Inr s"
| "to_string (JArr vs) =
     (case join_strings vs of Inl e \<Rightarrow> Inl e | Inr ss \<Rightarrow> Inr (join (js '','') ss))"
| "to_string (JObj kvs) =
     (if js ''toString'' \<in> fst ` set kvs then Inl (Fault No_primitive)
      else Inr (js ''[object Object]''))"
| "join_strings [] = Inr []"
| "join_strings (v # vs) =
     (case (if v = JNull then Inr [] else to_string v) of
        Inl e \<Rightarrow> Inl e
      | Inr s \<Rightarrow> (case join_strings vs of Inl e \<Rightarrow> Inl e | Inr ss \<Rightarrow> Inr (s # ss)))"

definition to_string_opt :: "jv option \<Rightarrow> exn + jstr" where
  "to_string_opt v = (case v of None \<Rightarrow> Inr (js ''undefined'') | Some w \<Rightarrow> to_string w)"

fun truthy :: "jv \<Rightarrow> bool" where
  "truthy JNull = False"
| "truthy (JBool b) = b"
| "truthy (JNum n) = (n \<noteq> NInt 0)"
| "truthy (JStr s) = (s \<noteq> [])"
| "truthy (JArr _) = True"
| "truthy (JObj _) = True"

definition truthy_opt :: "jv option \<Rightarrow> bool" where
  "truthy_opt v = (case v of None \<Rightarrow> False | Some w \<Rightarrow> truthy w)"

fun is_str :: "jv \<Rightarrow> bool" where
  "is_str (JStr _) = True"
| "is_str _ = False"

end
