(* ===== verification/Json_Facts.thy ===== *)
theory Json_Facts
  imports Json
begin

text \<open>
  The JSON codec: printed text is well formed, parsing inverts printing, and the fuel
  \<open>json_parse\<close> supplies is enough for every input.
\<close>

section \<open>String literals\<close>

lemma unat_of_nat_small: "n < 0x100 \<Longrightarrow> unat (of_nat n :: cu) = n"
  by (rule unat_of_nat_cu) simp

lemma hex_value_digit: "d < 16 \<Longrightarrow> hex_value (hex_digit d) = Some d"
  by (cases "d < 10") (simp_all add: hex_value_def hex_digit_def unat_of_nat_small del: of_nat_add)

lemma hex_split: "(c::nat) < 0x10000 \<Longrightarrow>
    c div 0x1000 mod 16 * 0x1000 + c div 0x100 mod 16 * 0x100 + c div 0x10 mod 16 * 0x10 + c mod 16 = c"
proof -
  assume "c < 0x10000"
  then have a: "c div 0x1000 mod 16 = c div 0x1000" by simp
  have e: "c div 0x1000 = c div 0x100 div 16" "c div 0x100 = c div 0x10 div 16"
    by (simp_all add: div_mult2_eq [symmetric])
  have "c div 0x100 div 16 * 0x1000 + c div 0x100 mod 16 * 0x100
      = (c div 0x100 div 16 * 16 + c div 0x100 mod 16) * 0x100"
    "c div 0x10 div 16 * 0x100 + c div 0x10 mod 16 * 0x10
      = (c div 0x10 div 16 * 16 + c div 0x10 mod 16) * 0x10"
    by (simp_all only: add_mult_distrib mult.assoc)
  then have "c div 0x1000 * 0x1000 + c div 0x100 mod 16 * 0x100 = c div 0x100 * 0x100"
    "c div 0x100 * 0x100 + c div 0x10 mod 16 * 0x10 = c div 0x10 * 0x10"
    by (simp_all only: e div_mult_mod_eq)
  then show ?thesis using a by simp
qed

lemma hex4_escape:
  assumes "c < 0x10000"
  shows "hex4 (hex_digit (c div 0x1000 mod 16)) (hex_digit (c div 0x100 mod 16))
           (hex_digit (c div 0x10 mod 16)) (hex_digit (c mod 16)) = Some (of_nat c)"
proof -
  have m: "k mod 16 < 16" for k :: nat by simp
  show ?thesis
    by (simp only: hex4_def hex_value_digit [OF m] prod.case option.case hex_split [OF assms])
qed

lemma parse_string_raw:
  assumes "32 \<le> unat u" "u \<noteq> 34" "u \<noteq> 92"
  shows "parse_string (u # t) = map_option (\<lambda>(us, r). (u # us, r)) (parse_string t)"
  using assms by (simp add: parse_char_def)

lemma of_nat_cu_eq: "c < 0x10000 \<Longrightarrow> (of_nat c :: cu) = w \<longleftrightarrow> c = unat w"
  by (metis unat_of_nat_cu of_nat_unat ucast_id)

lemma parse_string_escape:
  assumes "c < 0x10000"
  shows "parse_string (unicode_escape c @ t)
      = map_option (\<lambda>(us, r). (of_nat c # us, r)) (parse_string t)"
  using hex4_escape [OF assms] by (simp add: unicode_escape_def parse_char_def)

lemma parse_string_quote_cp:
  assumes "c < 0x110000"
  shows "parse_string (quote_cp c @ t)
      = map_option (\<lambda>(us, r). (units_of_cp c @ us, r)) (parse_string t)"
proof -
  consider (short) "c \<in> {8, 9, 10, 12, 13, 34, 92}"
    | (escape) "c \<notin> {8, 9, 10, 12, 13, 34, 92}" "c < 32 \<or> is_surrogate c"
    | (raw) "c \<notin> {8, 9, 10, 12, 13, 34, 92}" "32 \<le> c" "c < 0x10000" "\<not> is_surrogate c"
    | (pair) "0x10000 \<le> c"
    by force
  then show ?thesis
  proof cases
    case short
    then show ?thesis
      by (elim insertE emptyE)
         (simp_all add: quote_cp_def units_of_cp_def parse_char_def simple_escape_def)
  next
    case escape
    then have "c < 0x10000" by (auto simp: is_surrogate_def)
    then show ?thesis
      using escape parse_string_escape [of c t] by (simp add: quote_cp_def units_of_cp_def)
  next
    case raw
    then have "parse_string (of_nat c # t)
        = map_option (\<lambda>(us, r). (of_nat c # us, r)) (parse_string t)"
      by (intro parse_string_raw) (simp_all add: unat_of_nat_cu of_nat_cu_eq)
    with raw show ?thesis by (simp add: quote_cp_def units_of_cp_def)
  next
    case pair
    define d where "d = c - 0x10000"
    have d: "d div 0x400 < 0x400" "d mod 0x400 < 0x400" using pair assms by (auto simp: d_def)
    have raw: "32 \<le> unat (of_nat k :: cu)" "(of_nat k :: cu) \<noteq> 34" "(of_nat k :: cu) \<noteq> 92"
      if "0xD800 \<le> k" "k < 0xE000" for k
      using that by (simp_all add: unat_of_nat_cu of_nat_cu_eq)
    have "0xD800 \<le> 0xD800 + d div 0x400" "0xD800 + d div 0x400 < 0xE000"
      "0xD800 \<le> 0xDC00 + d mod 0x400" "0xDC00 + d mod 0x400 < 0xE000"
      using d by linarith+
    note h = raw [OF this(1,2)] and l = raw [OF this(3,4)]
    have q: "quote_cp c = [of_nat (0xD800 + d div 0x400), of_nat (0xDC00 + d mod 0x400)]"
      "units_of_cp c = [of_nat (0xD800 + d div 0x400), of_nat (0xDC00 + d mod 0x400)]"
      using pair by (simp_all add: quote_cp_def units_of_cp_def is_surrogate_def d_def)
    show ?thesis
      unfolding q append.simps parse_string_raw [OF h] parse_string_raw [OF l]
      by (cases "parse_string t") auto
  qed
qed

lemma parse_string_quoted:
  "list_all (\<lambda>c. c < 0x110000) cs \<Longrightarrow>
     parse_string (concat (map quote_cp cs) @ 34 # t) = Some (units_of_cps cs, t)"
  by (induction cs) (simp_all add: parse_string_quote_cp units_of_cps_def)

text \<open>Reading a quoted string gives the string, lone surrogates included.\<close>

theorem parse_string_quote: "parse_string (tl (quote s) @ t) = Some (s, t)"
proof -
  have "list_all (\<lambda>c. c < 0x110000) (code_points s)"
    by (auto simp: list_all_iff intro: code_points_bound)
  then show ?thesis by (simp add: quote_def parse_string_quoted)
qed

lemma quote_Cons: "quote s = 34 # tl (quote s)"
  by (simp add: quote_def)

section \<open>Numerals\<close>

text \<open>What may follow a value inside a document: a separator, a closing bracket or white space.\<close>

definition delimited :: "jstr \<Rightarrow> bool" where
  "delimited r \<longleftrightarrow> r = [] \<or> hd r \<in> {44, 93, 125, 32, 10, 13, 9}"

lemma delimited_simps [simp]:
  "delimited []" "delimited (44 # r)" "delimited (93 # r)" "delimited (125 # r)"
  by (simp_all add: delimited_def)

lemma not_digit_head: "delimited r \<Longrightarrow> r = [] \<or> \<not> is_digit (hd r)"
  by (auto simp: delimited_def is_digit_def)

lemma digit_text_simps [simp]:
  "digit_text [] = []" "digit_text (d # ds) = of_nat (48 + d) # digit_text ds"
  "digit_text (ds @ es) = digit_text ds @ digit_text es" "digit_text ds = [] \<longleftrightarrow> ds = []"
  by (simp_all add: digit_text_def)

lemma unat_digit: "d < 10 \<Longrightarrow> unat (of_nat (48 + d) :: cu) = 48 + d"
  by (rule unat_of_nat_cu) simp

lemma split_digits_text:
  assumes "list_all (\<lambda>d. d < 10) ds" "r = [] \<or> \<not> is_digit (hd r)"
  shows "split_digits (digit_text ds @ r) = (ds, r)"
  using assms
proof (induction ds)
  case Nil
  then show ?case by (cases r) (simp_all add: split_digits_def digits_of_def)
next
  case (Cons d ds)
  then have "is_digit (of_nat (48 + d))" and u: "unat (of_nat (48 + d) :: cu) = 48 + d"
    by (simp_all add: is_digit_def unat_digit del: of_nat_add)
  then show ?case
    using Cons by (simp add: split_digits_def digits_of_def del: of_nat_add)
qed

lemma parse_fraction_delimited: "delimited r \<Longrightarrow> parse_fraction r = Some ([], r)"
  by (cases r) (auto simp: parse_fraction_def delimited_def)

lemma parse_exponent_delimited: "delimited r \<Longrightarrow> parse_exponent r = Some (0, r)"
  by (cases r) (auto simp: parse_exponent_def delimited_def)

lemma dec_digits_all: "list_all (\<lambda>d. d < 10) (dec_digits n)"
  by (auto simp: list_all_iff dest: dec_digits_lt)

lemma parse_int_part_nat:
  assumes "delimited r"
  shows "parse_int_part (nat_text n @ r) = Some (dec_digits n, r)"
proof (cases "n = 0")
  case True
  then show ?thesis by (simp add: nat_text_def dec_digits_zero parse_int_part_def)
next
  case False
  obtain d ds where ds: "dec_digits n = d # ds"
    by (cases "dec_digits n") auto
  have "d \<noteq> 0" using dec_digits_hd [of n] False ds by simp
  moreover have "d < 10" using dec_digits_lt [of d n] ds by simp
  ultimately have "(of_nat (48 + d) :: cu) \<noteq> 48"
    by (simp add: of_nat_cu_eq del: of_nat_add)
  moreover have "split_digits (of_nat (48 + d) # digit_text ds @ r) = (d # ds, r)"
    using split_digits_text [OF dec_digits_all [of n] not_digit_head [OF assms]]
    by (simp add: ds del: of_nat_add)
  ultimately show ?thesis
    by (simp add: parse_int_part_def nat_text_def ds del: of_nat_add)
qed

lemma nat_text_hd: "s = nat_text n @ r \<Longrightarrow> s \<noteq> [] \<and> is_digit (hd s) \<and> hd s \<noteq> 45"
proof -
  assume s: "s = nat_text n @ r"
  obtain d ds where ds: "dec_digits n = d # ds"
    by (cases "dec_digits n") auto
  have d: "d < 10" using dec_digits_lt [of d n] ds by simp
  then have "hd s = of_nat (48 + d)" "s \<noteq> []"
    using s by (simp_all add: nat_text_def ds del: of_nat_add)
  with d show ?thesis
    by (simp add: is_digit_def unat_digit of_nat_cu_eq del: of_nat_add)
qed

lemma decimal_double_int: "\<bar>n\<bar> \<le> 2 ^ 53 \<Longrightarrow> decimal_double (n < 0) (nat \<bar>n\<bar>) 0 = NInt n"
  by (auto simp: decimal_double_def ratio10_def)

lemma parse_number_int:
  assumes "\<bar>n\<bar> \<le> 2 ^ 53" "delimited r"
  shows "parse_number (int_text n @ r) = Some (NInt n, r)"
proof (cases "n < 0")
  case True
  then show ?thesis
    using assms decimal_double_int [OF assms(1)]
    by (simp add: parse_number_def int_text_def js_Cons parse_int_part_nat parse_fraction_delimited
        parse_exponent_delimited)
next
  case False
  then have "int_text n @ r = nat_text (nat n) @ r" by (simp add: int_text_def)
  with nat_text_hd [OF this] show ?thesis
    using False assms decimal_double_int [OF assms(1)]
    by (simp add: parse_number_def parse_int_part_nat parse_fraction_delimited
        parse_exponent_delimited)
qed

section \<open>Objects in key order\<close>

lemma key_before_irrefl: "\<not> key_before k k"
  by (simp add: key_before_def split: option.split)

lemma obj_put_last:
  assumes "\<forall>l \<in> fst ` set acc. key_before l k"
  shows "obj_put acc k v = acc @ [(k, v)]"
proof -
  have "k \<notin> fst ` set acc" using assms key_before_irrefl by blast
  moreover have "takeWhile (\<lambda>(l, w). key_before l k) acc = acc"
    using assms by (auto simp: takeWhile_eq_all_conv)
  moreover have "dropWhile (\<lambda>(l, w). key_before l k) acc = []"
    using assms by (auto simp: dropWhile_eq_Nil_conv)
  ultimately show ?thesis by (auto simp: obj_put_def split: option.split)
qed

lemma obj_puts_own_order:
  "own_order (map fst (acc @ kvs)) \<Longrightarrow> obj_puts acc kvs = acc @ kvs"
proof (induction kvs arbitrary: acc)
  case Nil
  then show ?case by simp
next
  case (Cons kv kvs)
  obtain k v where kv: "kv = (k, v)" by (cases kv)
  have "\<forall>l \<in> fst ` set acc. key_before l k"
    using Cons.prems by (auto simp: own_order_def sorted_wrt_append kv)
  moreover have "own_order (map fst ((acc @ [(k, v)]) @ kvs))"
    using Cons.prems kv by simp
  ultimately show ?case
    using Cons.IH [of "acc @ [(k, v)]"] by (simp add: kv obj_put_last)
qed

section \<open>Values\<close>

text \<open>
  The values the round trip covers: objects list their keys in the language's order, and numbers
  are integers of at most 53 bits.
\<close>

fun plain :: "jv \<Rightarrow> bool" where
  "plain JNull = True"
| "plain (JBool b) = True"
| "plain (JNum n) = (case n of NInt i \<Rightarrow> \<bar>i\<bar> \<le> 2 ^ 53 | _ \<Rightarrow> False)"
| "plain (JStr s) = True"
| "plain (JArr vs) = list_all plain vs"
| "plain (JObj kvs) = (own_order (map fst kvs) \<and> list_all (\<lambda>kv. plain (snd kv)) kvs)"

text \<open>Without the demand on the order of keys.\<close>

fun small :: "jv \<Rightarrow> bool" where
  "small (JNum n) = (case n of NInt i \<Rightarrow> \<bar>i\<bar> \<le> 2 ^ 53 | _ \<Rightarrow> False)"
| "small (JArr vs) = list_all small vs"
| "small (JObj kvs) = list_all (\<lambda>kv. small (snd kv)) kvs"
| "small _ = True"

lemma plain_small: "plain v \<Longrightarrow> small v"
  by (induction v) (auto simp: list_all_iff snds.simps)

lemma int_text_hd: "s = int_text n @ r \<Longrightarrow> s \<noteq> [] \<and> (hd s = 45 \<or> is_digit (hd s))"
  using nat_text_hd [of s "nat n" r]
  by (cases "n < 0") (simp_all add: int_text_def js_Cons)

definition value_start :: "jstr \<Rightarrow> bool" where
  "value_start s \<longleftrightarrow> s \<noteq> [] \<and> \<not> is_ws (hd s) \<and> hd s \<noteq> 93"

lemma stringify_start: "small v \<Longrightarrow> value_start (stringify v @ r)"
proof (cases v)
  case (JNum n)
  assume "small v"
  then obtain i where n: "n = NInt i" "\<bar>i\<bar> \<le> 2 ^ 53"
    using JNum by (auto split: num.splits)
  then have "stringify v @ r = int_text i @ r" by (simp add: JNum json_num_def)
  from int_text_hd [OF this] show ?thesis
    by (auto simp: value_start_def is_digit_def is_ws_def)
qed (auto simp: value_start_def js_Cons is_ws_def quote_def)

lemma skip_ws_start: "value_start s \<Longrightarrow> skip_ws s = s"
  by (cases s) (simp_all add: value_start_def skip_ws_def)

lemma skip_ws_simps [simp]: "skip_ws [] = []"
  "skip_ws (c # s) = (if is_ws c then skip_ws s else c # s)"
  by (simp_all add: skip_ws_def)

lemma parse_scalar_string: "parse_scalar 34 (tl (quote s) @ r) = Some (JStr s, r)"
  by (simp add: parse_scalar_def parse_string_quote)

lemma parse_scalar_int:
  assumes "\<bar>n\<bar> \<le> 2 ^ 53" "delimited r" "int_text n @ r = c # t"
  shows "c \<noteq> 91 \<and> c \<noteq> 123 \<and> parse_scalar c t = Some (JNum (NInt n), r)"
  using int_text_hd [OF assms(3) [symmetric]] parse_number_int [OF assms(1,2)] assms(3)
  by (auto simp: parse_scalar_def is_digit_def)

lemma parse_scalar_literals:
  "parse_value (Suc n) (js ''null'' @ r) = Some (JNull, r)"
  "parse_value (Suc n) (js ''true'' @ r) = Some (JBool True, r)"
  "parse_value (Suc n) (js ''false'' @ r) = Some (JBool False, r)"
  by (simp_all add: js_Cons is_ws_def parse_scalar_def parse_literal_def strip_prefix_def
      is_digit_def)

text \<open>
  \<open>reads v w\<close>: the text of \<open>v\<close> parses to \<open>w\<close>. Lists and objects, given what their members read as:
  an object is rebuilt member by member, in the order of the text.
\<close>

definition reads :: "jv \<Rightarrow> jv \<Rightarrow> bool" where
  "reads v w \<longleftrightarrow> (\<forall>n r. delimited r \<longrightarrow> 2 * length (stringify v) < n \<longrightarrow>
     parse_value n (stringify v @ r) = Some (w, r))"

abbreviation value_trip :: "jv \<Rightarrow> bool" where
  "value_trip v \<equiv> reads v v"

lemma readsD:
  "reads v w \<Longrightarrow> delimited r \<Longrightarrow> 2 * length (stringify v) < n \<Longrightarrow>
     parse_value n (stringify v @ r) = Some (w, r)"
  by (simp add: reads_def)

lemma readsI:
  assumes "\<And>n r. delimited r \<Longrightarrow> parse_value (Suc n) (stringify v @ r) = Some (w, r)"
  shows "reads v w"
  unfolding reads_def
proof (intro allI impI)
  fix n r assume "delimited r" "2 * length (stringify v) < n"
  with assms [of r "n - 1"] show "parse_value n (stringify v @ r) = Some (w, r)" by simp
qed

lemma join_Cons:
  "ss \<noteq> [] \<Longrightarrow> join [44] (s # ss) = s @ 44 # join [44] ss"
  by (cases ss) simp_all

lemma parse_elems_reads:
  assumes "list_all2 reads vs ws" "vs \<noteq> []" "2 * length (join [44] (map stringify vs)) + 1 < n"
  shows "parse_elems n (join [44] (map stringify vs) @ 93 # r) = Some (ws, r)"
  using assms
proof (induction vs ws arbitrary: n rule: list_all2_induct)
  case Nil
  then show ?case by simp
next
  case (Cons v vs w ws)
  obtain m where n: "n = Suc m" using Cons.prems by (cases n) auto
  note v = readsD [OF Cons.hyps(1)]
  show ?case
  proof (cases "vs = []")
    case True
    then have "ws = []" using Cons.hyps(2) by simp
    then show ?thesis using v [of "93 # r" m] Cons.prems True by (simp add: n is_ws_def)
  next
    case False
    let ?ss = "map stringify vs"
    have j: "join [44] (map stringify (v # vs)) = stringify v @ 44 # join [44] ?ss"
      using False by (simp add: join_Cons)
    have len: "2 * length (stringify v) < m" "2 * length (join [44] ?ss) + 1 < m"
      using Cons.prems(2) unfolding j by (simp_all add: n)
    have "parse_value m (stringify v @ 44 # join [44] ?ss @ 93 # r)
        = Some (w, 44 # join [44] ?ss @ 93 # r)"
      using v len by simp
    moreover have "parse_elems m (join [44] ?ss @ 93 # r) = Some (ws, r)"
      using Cons.IH [OF False len(2)] .
    ultimately show ?thesis unfolding j by (simp add: n is_ws_def)
  qed
qed

definition member_text :: "jstr \<times> jv \<Rightarrow> jstr" where
  "member_text kv = quote (fst kv) @ 58 # stringify (snd kv)"

lemma member_text_start: "member_text kv @ r = 34 # tl (quote (fst kv)) @ 58 # stringify (snd kv) @ r"
  by (simp add: member_text_def quote_def)

abbreviation member_reads :: "jstr \<times> jv \<Rightarrow> jstr \<times> jv \<Rightarrow> bool" where
  "member_reads kv lw \<equiv> fst kv = fst lw \<and> reads (snd kv) (snd lw)"

lemma parse_members_reads:
  assumes "list_all2 member_reads kvs lws" "kvs \<noteq> []"
    "2 * length (join [44] (map member_text kvs)) + 1 < n"
  shows "parse_members n (join [44] (map member_text kvs) @ 125 # r) = Some (lws, r)"
  using assms
proof (induction kvs lws arbitrary: n rule: list_all2_induct)
  case Nil
  then show ?case by simp
next
  case (Cons kv kvs lw lws)
  obtain m where n: "n = Suc m" using Cons.prems by (cases n) auto
  have lw: "lw = (fst kv, snd lw)" using Cons.hyps(1) by (simp add: prod_eq_iff)
  note v = readsD [OF conjunct2 [OF Cons.hyps(1)]]
  show ?case
  proof (cases "kvs = []")
    case True
    have len: "2 * length (stringify (snd kv)) < m"
      using Cons.prems(2) True by (simp add: n member_text_def)
    have t: "join [44] (map member_text (kv # kvs)) @ 125 # r
        = 34 # tl (quote (fst kv)) @ 58 # stringify (snd kv) @ 125 # r"
      using True by (simp add: member_text_start)
    have "lws = []" using Cons.hyps(2) True by simp
    with v [OF _ len, of "125 # r"] show ?thesis
      unfolding t by (subst lw) (simp add: n is_ws_def parse_string_quote)
  next
    case False
    let ?ss = "map member_text kvs"
    have j: "join [44] (map member_text (kv # kvs)) = member_text kv @ 44 # join [44] ?ss"
      using False by (simp add: join_Cons)
    have len: "2 * length (stringify (snd kv)) < m" "2 * length (join [44] ?ss) + 1 < m"
      using Cons.prems(2) unfolding j by (simp_all add: n member_text_def)
    have "parse_value m (stringify (snd kv) @ 44 # join [44] ?ss @ 125 # r)
        = Some (snd lw, 44 # join [44] ?ss @ 125 # r)"
      using v len by simp
    moreover have "parse_members m (join [44] ?ss @ 125 # r) = Some (lws, r)"
      using Cons.IH [OF False len(2)] .
    ultimately show ?thesis unfolding j append.assoc append.simps member_text_start
      by (subst lw) (simp add: n is_ws_def parse_string_quote)
  qed
qed

lemma join_start: "vs \<noteq> [] \<Longrightarrow> list_all small vs \<Longrightarrow> value_start (join [44] (map stringify vs) @ r)"
  by (cases vs rule: remdups_adj.cases) (simp_all add: stringify_start)

lemma join_member_start: "kvs \<noteq> [] \<Longrightarrow> hd (join [44] (map member_text kvs) @ r) = 34"
  by (cases kvs rule: remdups_adj.cases) (simp_all add: member_text_start)

lemma array_reads:
  assumes "list_all small vs" "list_all2 reads vs ws"
  shows "reads (JArr vs) (JArr ws)"
  unfolding reads_def
proof (intro allI impI)
  fix n r
  assume d: "delimited r" and n: "2 * length (stringify (JArr vs)) < n"
  then obtain m where m: "n = Suc m" "2 * length (join [44] (map stringify vs)) + 1 < m"
    by (cases n) auto
  show "parse_value n (stringify (JArr vs) @ r) = Some (JArr ws, r)"
  proof (cases "vs = []")
    case True
    then show ?thesis using assms(2) by (simp add: m is_ws_def)
  next
    case False
    have "value_start (join [44] (map stringify vs) @ 93 # r)"
      using False assms(1) by (rule join_start)
    then have "skip_ws (join [44] (map stringify vs) @ 93 # r) = join [44] (map stringify vs) @ 93 # r"
      "hd (join [44] (map stringify vs) @ 93 # r) \<noteq> 93"
      by (rule skip_ws_start, simp add: value_start_def)
    with parse_elems_reads [OF assms(2) False m(2), of r] show ?thesis
      by (simp add: m is_ws_def)
  qed
qed

lemma object_reads:
  assumes "list_all2 member_reads kvs lws"
  shows "reads (JObj kvs) (JObj (obj_puts [] lws))"
  unfolding reads_def
proof (intro allI impI)
  fix n r
  let ?j = "join [44] (map member_text kvs)"
  assume d: "delimited r" and n: "2 * length (stringify (JObj kvs)) < n"
  have s: "stringify (JObj kvs) = 123 # ?j @ [125]"
    by (simp add: member_text_def [abs_def])
  obtain m where m: "n = Suc m" "2 * length ?j + 1 < m"
    using n unfolding s by (cases n) auto
  show "parse_value n (stringify (JObj kvs) @ r) = Some (JObj (obj_puts [] lws), r)"
  proof (cases "kvs = []")
    case True
    then show ?thesis using assms by (simp add: m is_ws_def)
  next
    case False
    have h: "hd (?j @ 125 # r) = 34" using False by (rule join_member_start)
    then have k: "skip_ws (?j @ 125 # r) = ?j @ 125 # r"
      by (intro skip_ws_start) (simp add: value_start_def is_ws_def)
    show ?thesis
      unfolding s m(1)
      using parse_members_reads [OF assms False m(2), of r] h k
      by (simp add: is_ws_def)
  qed
qed

lemma object_trip:
  assumes "own_order (map fst kvs)" "list_all (\<lambda>kv. value_trip (snd kv)) kvs"
  shows "value_trip (JObj kvs)"
proof -
  have "list_all2 member_reads kvs kvs" using assms(2) by (simp add: list_all2_same list_all_iff)
  from object_reads [OF this] show ?thesis
    using obj_puts_own_order [of "[]" kvs] assms(1) by simp
qed

lemma scalar_trip:
  "value_trip JNull" "value_trip (JBool b)" "value_trip (JStr s)"
  "\<bar>i\<bar> \<le> 2 ^ 53 \<Longrightarrow> value_trip (JNum (NInt i))"
proof -
  show "value_trip JNull"
    by (rule readsI) (simp only: stringify.simps parse_scalar_literals)
next
  show "value_trip (JBool b)"
    by (rule readsI) (cases b, simp_all only: stringify.simps parse_scalar_literals if_True if_False)
next
  show "value_trip (JStr s)"
  proof (rule readsI)
    fix n r
    have "stringify (JStr s) @ r = 34 # (tl (quote s) @ r)" by (simp add: quote_def)
    then show "parse_value (Suc n) (stringify (JStr s) @ r) = Some (JStr s, r)"
      by (simp only: parse_value.simps) (simp add: is_ws_def parse_scalar_string)
  qed
next
  assume i: "\<bar>i\<bar> \<le> 2 ^ 53"
  show "value_trip (JNum (NInt i))"
  proof (rule readsI)
    fix n r assume d: "delimited r"
    have p: "small (JNum (NInt i))" using i by simp
    have t: "stringify (JNum (NInt i)) = int_text i" using i by (simp add: json_num_def)
    obtain c u where cu: "int_text i @ r = c # u"
      using int_text_hd [OF refl, of i r] by (cases "int_text i @ r") auto
    have ws: "skip_ws (c # u) = c # u"
      using skip_ws_start [OF stringify_start [OF p, of r]] unfolding t cu .
    show "parse_value (Suc n) (stringify (JNum (NInt i)) @ r) = Some (JNum (NInt i), r)"
      using parse_scalar_int [OF i d cu] unfolding t cu parse_value.simps ws by simp
  qed
qed

text \<open>The value with the members of its objects put in the language's order, as parsing rebuilds it.\<close>

fun listed :: "jv \<Rightarrow> jv" where
  "listed (JArr vs) = JArr (map listed vs)"
| "listed (JObj kvs) = JObj (obj_puts [] (map (\<lambda>kv. (fst kv, listed (snd kv))) kvs))"
| "listed v = v"

theorem small_reads: "small v \<Longrightarrow> reads v (listed v)"
proof (induction v)
  case (JNum n)
  then show ?case by (cases n) (simp_all add: scalar_trip)
next
  case (JArr vs)
  then have "list_all2 reads vs (map listed vs)"
    by (simp add: list_all2_conv_all_nth list_all_length)
  then show ?case using JArr.prems by (simp add: array_reads)
next
  case (JObj kvs)
  have "reads (snd kv) (listed (snd kv))" if "kv \<in> set kvs" for kv
    using JObj.IH [OF that] JObj.prems that by (simp add: list_all_iff snds.intros)
  then have "list_all2 member_reads kvs (map (\<lambda>kv. (fst kv, listed (snd kv))) kvs)"
    by (simp add: list_all2_conv_all_nth)
  then show ?case by (simp add: object_reads)
qed (simp_all add: scalar_trip)

lemma plain_listed: "plain v \<Longrightarrow> listed v = v"
proof (induction v)
  case (JArr vs)
  then show ?case by (simp add: list_all_iff map_idI)
next
  case (JObj kvs)
  have "listed (snd kv) = snd kv" if "kv \<in> set kvs" for kv
    using JObj.IH [OF that] JObj.prems that by (simp add: list_all_iff snds.intros)
  then have "map (\<lambda>kv. (fst kv, listed (snd kv))) kvs = kvs" by (simp add: map_idI)
  then show ?case using obj_puts_own_order [of "[]" kvs] JObj.prems by simp
qed simp_all

lemma plain_trip: "plain v \<Longrightarrow> value_trip v"
  using small_reads [OF plain_small] plain_listed by metis

lemma reads_parse:
  assumes "reads v w"
  shows "json_parse (stringify v) = Inr w"
proof -
  have "parse_value (2 * length (stringify v) + 2) (stringify v @ []) = Some (w, [])"
    by (rule readsD [OF assms]) simp_all
  then show ?thesis
    unfolding append_Nil2 by (simp only: json_parse_def option.case prod.case) simp
qed

text \<open>Parsing inverts printing.\<close>

theorem json_parse_stringify:
  assumes "plain v"
  shows "json_parse (stringify v) = Inr v"
  using reads_parse [OF plain_trip [OF assms]] .

section \<open>Printed text is well formed\<close>

definition ascii :: "jstr \<Rightarrow> bool" where
  "ascii s \<longleftrightarrow> (\<forall>c \<in> set s. unat c < 0x80)"

lemma ascii_simps [simp]: "ascii []" "ascii (c # s) \<longleftrightarrow> unat c < 0x80 \<and> ascii s"
  "ascii (s @ t) \<longleftrightarrow> ascii s \<and> ascii t" "ascii (replicate n c) \<longleftrightarrow> n = 0 \<or> unat c < 0x80"
  by (auto simp: ascii_def)

lemma ascii_take_drop: "ascii s \<Longrightarrow> ascii (take n s)" "ascii s \<Longrightarrow> ascii (drop n s)"
  by (auto simp: ascii_def dest: in_set_takeD in_set_dropD)

lemma ascii_nat_text [simp]: "ascii (nat_text n)"
  by (auto simp: ascii_def nat_text_def digit_text_def unat_digit dest!: dec_digits_lt
      simp del: of_nat_add)

lemma ascii_js: "\<forall>c \<in> set s. of_char c < (128 :: nat) \<Longrightarrow> ascii (js s)"
  by (auto simp: ascii_def js_def)

lemma ascii_int_text [simp]: "ascii (int_text n)"
  by (simp add: int_text_def ascii_js)

lemma ascii_layout: "ascii (layout x)"
proof (cases x)
  case (fields s k n)
  then show ?thesis
    by (simp add: layout_def Let_def ascii_take_drop ascii_js exponent_text_def)
qed

lemma ascii_num_text: "ascii (num_text n)"
  by (cases n) (simp_all add: positive_text_def ascii_layout ascii_js)

lemma well_formed_asciiI: "ascii s \<Longrightarrow> well_formed s"
  by (rule well_formed_ascii) (simp add: ascii_def)

lemma hex_digit_ascii: "d < 16 \<Longrightarrow> unat (hex_digit d) < 0x80"
  by (simp add: hex_digit_def unat_of_nat_small del: of_nat_add)

lemma ascii_escape: "ascii (unicode_escape c)"
  by (simp add: unicode_escape_def hex_digit_ascii)

lemma well_formed_quote_cp: "c < 0x110000 \<Longrightarrow> well_formed (quote_cp c)"
  by (auto simp: quote_cp_def is_scalar_def ascii_escape
      intro!: well_formed_asciiI [of "unicode_escape c"] well_formed_unit_cp
        well_formed_asciiI [of "[92, _]"])

lemma well_formed_bracket:
  assumes "unat a < 0x80" "unat b < 0x80" "well_formed s"
  shows "well_formed (a # s @ [b])"
proof -
  have "well_formed ([a] @ s @ [b])"
    using assms by (blast intro: well_formed_append well_formed_ascii1)
  then show ?thesis by simp
qed

lemma well_formed_quote: "well_formed (quote s)"
  unfolding quote_def
  by (intro well_formed_bracket well_formed_concat)
     (auto intro: well_formed_quote_cp code_points_bound)

lemma well_formed_join:
  "\<forall>s \<in> set ss. well_formed s \<Longrightarrow> well_formed (join [44] ss)"
proof (induction "[44] :: jstr" ss rule: join.induct)
  case (3 s t ss)
  then have "well_formed (s @ [44] @ join [44] (t # ss))"
    by (intro well_formed_append well_formed_asciiI [of "[44]"]) simp_all
  then show ?case by simp
qed simp_all

text \<open>\<open>JSON.stringify\<close> never emits a lone surrogate, so UTF-8 loses nothing of its output.\<close>

theorem stringify_well_formed: "well_formed (stringify v)"
proof (induction v)
  case (JNum n)
  then show ?case
    using ascii_num_text [of n]
    by (auto simp: json_num_def ascii_js intro!: well_formed_asciiI split: num.split
        simp del: num_text.simps)
next
  case (JArr vs)
  have "well_formed (join [44] (map stringify vs))"
    by (rule well_formed_join) (auto intro: JArr)
  then show ?case by (simp add: well_formed_bracket)
next
  case (JObj kvs)
  have "well_formed (quote (fst kv) @ [58] @ stringify (snd kv))" if "kv \<in> set kvs" for kv
    using that JObj [of kv "snd kv"]
    by (intro well_formed_append well_formed_quote well_formed_asciiI [of "[58]"])
       (simp_all add: snds.simps)
  then have "well_formed (join [44] (map (\<lambda>kv. quote (fst kv) @ 58 # stringify (snd kv)) kvs))"
    by (intro well_formed_join) auto
  then show ?case by (simp add: well_formed_bracket)
qed (simp_all add: well_formed_quote well_formed_asciiI ascii_js)

text \<open>The wire round trip: printed, encoded, decoded and parsed.\<close>

theorem wire_roundtrip:
  "plain v \<Longrightarrow> json_parse (utf8_decode (utf8_encode (stringify v))) = Inr v"
  by (simp add: utf8_roundtrip stringify_well_formed json_parse_stringify)

section \<open>Printed text is one line\<close>

definition printable :: "jstr \<Rightarrow> bool" where
  "printable s \<longleftrightarrow> (\<forall>c \<in> set s. 32 \<le> unat c)"

lemma printable_simps [simp]: "printable []" "printable (c # s) \<longleftrightarrow> 32 \<le> unat c \<and> printable s"
  "printable (s @ t) \<longleftrightarrow> printable s \<and> printable t" "printable (replicate n c) \<longleftrightarrow> n = 0 \<or> 32 \<le> unat c"
  by (auto simp: printable_def)

lemma printable_take_drop: "printable s \<Longrightarrow> printable (take n s)" "printable s \<Longrightarrow> printable (drop n s)"
  by (auto simp: printable_def dest: in_set_takeD in_set_dropD)

lemma printable_nat_text [simp]: "printable (nat_text n)"
  by (auto simp: printable_def nat_text_def digit_text_def unat_digit dest!: dec_digits_lt
      simp del: of_nat_add)

lemma printable_js: "\<forall>c \<in> set s. 32 \<le> (of_char c :: nat) \<Longrightarrow> \<forall>c \<in> set s. (of_char c :: nat) < 0x10000 \<Longrightarrow> printable (js s)"
  by (auto simp: printable_def js_def)

lemma printable_int_text [simp]: "printable (int_text n)"
  by (simp add: int_text_def printable_js)

lemma printable_num_text: "printable (num_text n)"
proof -
  have "printable (layout x)" for x
    by (cases x) (simp add: layout_def Let_def printable_take_drop printable_js exponent_text_def)
  then show ?thesis by (cases n) (simp_all add: positive_text_def printable_js)
qed

lemma hex_digit_printable: "d < 16 \<Longrightarrow> 32 \<le> unat (hex_digit d)"
  by (simp add: hex_digit_def unat_of_nat_small del: of_nat_add)

lemma printable_unit: "32 \<le> n \<Longrightarrow> n < 0x10000 \<Longrightarrow> 32 \<le> unat (of_nat n :: cu)"
  by (simp add: unat_of_nat take_bit_eq_mod)

lemma printable_quote_cp: "c < 0x110000 \<Longrightarrow> printable (quote_cp c)"
  by (auto simp: quote_cp_def unicode_escape_def hex_digit_printable units_of_cp_def
      intro!: printable_unit simp del: of_nat_add)

lemma printable_quote: "printable (quote s)"
  using printable_quote_cp code_points_bound [of _ s] unfolding quote_def
  by (auto simp: printable_def)

lemma printable_join: "\<forall>s \<in> set ss. printable s \<Longrightarrow> printable (join [44] ss)"
  by (induction "[44] :: jstr" ss rule: join.induct) auto

text \<open>\<open>JSON.stringify\<close> escapes every control character, so its text never spans two lines.\<close>

theorem stringify_printable: "printable (stringify v)"
proof (induction v)
  case (JNum n)
  then show ?case
    using printable_num_text [of n] by (auto simp: json_num_def printable_js split: num.split)
next
  case (JArr vs)
  then have "printable (join [44] (map stringify vs))" by (intro printable_join) auto
  then show ?case by simp
next
  case (JObj kvs)
  have "printable (quote (fst kv) @ 58 # stringify (snd kv))" if "kv \<in> set kvs" for kv
    using that JObj [of kv "snd kv"] by (simp add: printable_quote snds.simps)
  then have "printable (join [44] (map (\<lambda>kv. quote (fst kv) @ 58 # stringify (snd kv)) kvs))"
    by (intro printable_join) auto
  then show ?case by simp
qed (simp_all add: printable_quote printable_js)

section \<open>ASCII text in UTF-8\<close>

lemma code_points_ascii: "ascii s \<Longrightarrow> code_points s = map unat s"
  by (induction s rule: code_points.induct) (auto simp: is_high_def)

lemma utf8_encode_ascii:
  assumes "ascii s"
  shows "utf8_encode s = map (\<lambda>c. of_nat (unat c)) s"
proof -
  have "concat (map (\<lambda>c. encode_cp (to_scalar (unat c))) s) = map (\<lambda>c. of_nat (unat c)) s"
    using assms
    by (induction s) (auto simp: encode_cp_def to_scalar_def is_surrogate_def)
  then show ?thesis using assms by (simp add: utf8_encode_def encode_cps_def code_points_ascii comp_def)
qed

lemma drop_bom_ascii: "ascii s \<Longrightarrow> drop_bom s = s"
  by (cases s) (auto simp: drop_bom_def)

lemma ascii_js_simp [simp]: "ascii (js s) \<longleftrightarrow> (\<forall>c \<in> set s. of_char c < (128 :: nat))"
  by (induction s) (simp_all add: js_Cons)

text \<open>Text that is quoted as it stands.\<close>

definition quiet :: "jstr \<Rightarrow> bool" where
  "quiet s \<longleftrightarrow> list_all (\<lambda>c. 32 \<le> unat c \<and> unat c < 128 \<and> unat c \<noteq> 34 \<and> unat c \<noteq> 92) s"

lemma quote_quiet: "quiet s \<Longrightarrow> quote s = 34 # s @ [34]"
proof -
  assume q: "quiet s"
  then have "ascii s" by (auto simp: quiet_def ascii_def list_all_iff)
  moreover have "concat (map (\<lambda>c. quote_cp (unat c)) s) = s"
    using q
  proof (induction s)
    case (Cons c s)
    then have "quote_cp (unat c) = [c]"
      by (auto simp: quiet_def quote_cp_def is_surrogate_def units_of_unit)
    then show ?case using Cons by (simp add: quiet_def)
  qed simp
  ultimately show ?thesis by (simp add: quote_def code_points_ascii comp_def)
qed

lemma quiet_js: "quiet (js s) \<longleftrightarrow> list_all (\<lambda>c. 32 \<le> (of_char c :: nat) \<and> (of_char c :: nat) < 128 \<and> (of_char c :: nat) \<noteq> 34 \<and> (of_char c :: nat) \<noteq> 92) s"
  by (induction s) (simp_all add: quiet_def js_Cons)
lemma length_utf8_ascii: "ascii s \<Longrightarrow> length (utf8_encode s) = length s"
  by (simp add: utf8_encode_ascii)

section \<open>Fuel\<close>

lemma length_skip_ws: "length (skip_ws s) \<le> length s"
  by (simp add: skip_ws_def length_dropWhile_le)

lemma skip_ws_Cons_length: "skip_ws s = c # r \<Longrightarrow> length r < length s"
  using length_skip_ws [of s] by simp

lemma parse_string_length: "parse_string s = Some (u, r) \<Longrightarrow> length r < length s"
proof (induction s arbitrary: u r rule: parse_string.induct)
  case 1
  then show ?case by simp
next
  case (2 c s)
  then show ?case
    by (fastforce split: if_splits option.splits dest: parse_char_length)
qed

lemma split_digits_length:
  "split_digits s = (ds, r) \<Longrightarrow> length r \<le> length s \<and> (ds \<noteq> [] \<longrightarrow> length r < length s)"
proof -
  assume a: "split_digits s = (ds, r)"
  have "length (takeWhile is_digit s) + length (dropWhile is_digit s) = length s"
    by (metis length_append takeWhile_dropWhile_id)
  with a show ?thesis
    by (cases "takeWhile is_digit s") (auto simp: split_digits_def digits_of_def)
qed

lemma parse_int_part_length: "parse_int_part s = Some (ds, r) \<Longrightarrow> length r < length s"
  by (auto simp: parse_int_part_def split: list.splits if_splits prod.splits
      dest!: split_digits_length)

lemma parse_fraction_length: "parse_fraction s = Some (ds, r) \<Longrightarrow> length r \<le> length s"
  by (auto simp: parse_fraction_def split: list.splits if_splits prod.splits
      dest!: split_digits_length)

lemma parse_exponent_length: "parse_exponent s = Some (e, r) \<Longrightarrow> length r \<le> length s"
  by (force simp: parse_exponent_def Let_def split: list.splits if_splits prod.splits
      dest!: split_digits_length)

lemma parse_number_length:
  assumes "parse_number s = Some (x, r)"
  shows "length r < length s"
proof -
  obtain ds t fs u e where "parse_int_part (if s \<noteq> [] \<and> hd s = 45 then tl s else s) = Some (ds, t)"
    "parse_fraction t = Some (fs, u)" "parse_exponent u = Some (e, r)"
    using assms by (auto simp: parse_number_def Let_def split: option.splits)
  then have "length t < length s" "length u \<le> length t" "length r \<le> length u"
    by (auto dest!: parse_int_part_length parse_fraction_length parse_exponent_length
        split: if_splits)
  then show ?thesis by simp
qed

lemma strip_prefix_length: "strip_prefix p s = Some r \<Longrightarrow> p \<noteq> [] \<Longrightarrow> length r < length s"
  by (auto simp: strip_prefix_def split: if_splits) (cases s; simp)

lemma parse_scalar_length: "parse_scalar c r = Some (v, t) \<Longrightarrow> length t \<le> length r"
  by (auto simp: parse_scalar_def parse_literal_def split: if_splits option.splits
      dest!: parse_string_length parse_number_length strip_prefix_length)

lemma parse_length:
  "(parse_value n s = Some (v, r) \<longrightarrow> length r < length s) \<and>
   (parse_elems n s = Some (vs, r) \<longrightarrow> length r < length s) \<and>
   (parse_members n s = Some (kvs, r) \<longrightarrow> length r < length s)"
proof (induction n arbitrary: s v vs kvs r)
  case 0
  then show ?case by simp
next
  case (Suc n)
  have V: "parse_value n s = Some (v, r) \<Longrightarrow> length r < length s" for s v r using Suc by blast
  have E: "parse_elems n s = Some (v, r) \<Longrightarrow> length r < length s" for s v r using Suc by blast
  have M: "parse_members n s = Some (v, r) \<Longrightarrow> length r < length s" for s v r using Suc by blast
  have T: "length (tl (skip_ws s)) \<le> length s" for s using length_skip_ws [of s] by simp
  have v: "parse_value (Suc n) s = Some (v, r) \<Longrightarrow> length r < length s"
    using T by (fastforce split: list.splits if_splits
        dest!: skip_ws_Cons_length E M parse_scalar_length intro: le_less_trans)
  have e: "parse_elems (Suc n) s = Some (vs, r) \<Longrightarrow> length r < length s"
    by (fastforce split: list.splits if_splits option.splits dest!: skip_ws_Cons_length V E)
  have m: "parse_members (Suc n) s = Some (kvs, r) \<Longrightarrow> length r < length s"
    by (fastforce split: list.splits if_splits option.splits
        dest!: skip_ws_Cons_length V M parse_string_length)
  show ?case using v e m by blast
qed

lemma parse_value_length: "parse_value n s = Some (v, r) \<Longrightarrow> length r < length s"
  using parse_length by blast

lemma parse_fuel:
  "(2 * length s < n \<longrightarrow> 2 * length s < m \<longrightarrow> parse_value n s = parse_value m s) \<and>
   (2 * length s + 1 < n \<longrightarrow> 2 * length s + 1 < m \<longrightarrow> parse_elems n s = parse_elems m s) \<and>
   (2 * length s + 1 < n \<longrightarrow> 2 * length s + 1 < m \<longrightarrow> parse_members n s = parse_members m s)"
proof (induction n arbitrary: m s)
  case 0
  then show ?case by simp
next
  case (Suc n)
  show ?case
  proof (cases m)
    case 0
    then show ?thesis by simp
  next
    case (Suc k)
    have V: "parse_value n t = parse_value k t" if "2 * length t < n" "2 * length t < k" for t
      using Suc.IH that by blast
    have E: "parse_elems n t = parse_elems k t" "parse_members n t = parse_members k t"
      if "2 * length t + 1 < n" "2 * length t + 1 < k" for t
      using Suc.IH that by blast+
    have v: "parse_value (Suc n) s = parse_value (Suc k) s"
      if "2 * length s < Suc n" "2 * length s < Suc k"
    proof (cases "skip_ws s")
      case (Cons c r)
      then have "2 * length r + 1 < n" "2 * length r + 1 < k"
        using that skip_ws_Cons_length [OF Cons] by simp_all
      then show ?thesis using Cons E by simp
    qed simp
    have e: "parse_elems (Suc n) s = parse_elems (Suc k) s"
      if "2 * length s + 1 < Suc n" "2 * length s + 1 < Suc k"
    proof (cases "parse_value k s")
      case (Some vr)
      obtain v r where vr: "vr = (v, r)" by (cases vr)
      show ?thesis
      proof (cases "skip_ws r")
        case (Cons c t)
        have "length t + 2 \<le> length s"
          using skip_ws_Cons_length [OF Cons] parse_value_length [OF Some [unfolded vr]] by simp
        then show ?thesis using that Some vr Cons V [of s] E [of t] by simp
      qed (use that Some vr V [of s] in simp)
    qed (use that V [of s] in simp)
    have m: "parse_members (Suc n) s = parse_members (Suc k) s"
      if f: "2 * length s + 1 < Suc n" "2 * length s + 1 < Suc k"
    proof -
      have VT: "parse_value n t = parse_value k t" if "length t < length s" for t
        using V [of t] f that by simp
      have MT: "parse_members n t = parse_members k t" if "length t + 2 \<le> length s" for t
        using E(2) [of t] f that by simp
      show ?thesis
      proof (cases "skip_ws s")
        case s: (Cons q s1)
        show ?thesis
        proof (cases "parse_string s1")
          case (Some kr)
          obtain key r where p: "parse_string s1 = Some (key, r)" using Some by (cases kr) auto
          show ?thesis
          proof (cases "skip_ws r")
            case r: (Cons c t)
            have t: "length t + 3 \<le> length s"
              using skip_ws_Cons_length [OF s] parse_string_length [OF p]
                skip_ws_Cons_length [OF r] by simp
            have vt: "parse_value n t = parse_value k t" using t by (intro VT) simp
            show ?thesis
            proof (cases "parse_value k t")
              case (Some vu)
              obtain v u where pv: "parse_value k t = Some (v, u)" using Some by (cases vu) auto
              have "parse_members n w = parse_members k w" if "skip_ws u = d # w" for d w
                using t parse_value_length [OF pv] skip_ws_Cons_length [OF that]
                by (intro MT) simp
              then show ?thesis using s p r vt pv by (cases "skip_ws u") simp_all
            qed (use s p r vt in simp)
          qed (use s p in simp)
        qed (use s in simp)
      qed simp
    qed
    show ?thesis using v e m Suc by blast
  qed
qed

text \<open>More fuel than \<open>json_parse\<close> supplies never changes what is parsed.\<close>

theorem json_parse_fuel_enough:
  "2 * length s < n \<Longrightarrow> parse_value n s = parse_value (2 * length s + 2) s"
  using parse_fuel [of s n "2 * length s + 2"] by simp

text \<open>From here on the codec is used through these facts.\<close>

declare stringify.simps [simp del] parse_value.simps [simp del] parse_elems.simps [simp del]
  parse_members.simps [simp del]

end
