(* ===== verification/Wasm_Abi.thy ===== *)
theory Wasm_Abi
  imports Js_Number Utf8
begin

text \<open>
  The WebAssembly side every host talks to. The module is not in the repository's source, so it is
  a parameter: its import and export tables, its exported functions over an instance state with a
  linear memory, and its start. What the hosts do with it is modelled here: typed-array writes and
  reads with their range errors, the little-endian \<open>DataView\<close> read, the string exchange of the
  wasm-bindgen ABI and the import the module calls back.
\<close>

section \<open>Modules and instances\<close>

text \<open>
  What a host import sees of an instance: the memory, what \<open>inst.exports.memory\<close> is at that moment
  (the host's variable is assigned when the module's start function has returned), and how often
  entropy was drawn.
\<close>

datatype binding =
    Unassigned    \<comment> \<open>the variable \<open>inst\<close> has no value yet\<close>
  | No_memory     \<comment> \<open>the instance has no export called memory\<close>
  | Not_memory    \<comment> \<open>that export is not a memory, so it has no buffer\<close>
  | Bound

record lin =
  lm_bytes :: "byte list"
  lm_bound :: binding
  lm_rng :: nat

record 's inst =
  in_lin :: lin
  in_priv :: 's

type_synonym import_fn = "i32 list \<Rightarrow> (lin, unit) comp"
type_synonym import_obj = "jstr \<Rightarrow> jstr \<Rightarrow> import_fn option"

datatype 's export =
    Func "import_obj \<Rightarrow> i32 list \<Rightarrow> ('s inst, i32) comp"
  | Memory
  | Other_export

record 's wmodule =
  md_imports :: "(jstr \<times> jstr \<times> jstr) list"
  md_exports :: "(jstr \<times> 's export) list"
  md_start :: "import_obj \<Rightarrow> exn + 's inst"

text \<open>\<open>inst.exports\<close>\<close>

record 's exports_obj =
  ex_table :: "(jstr \<times> 's export) list"
  ex_imports :: import_obj

definition ex_get :: "'s exports_obj \<Rightarrow> jstr \<Rightarrow> 's export option" where
  "ex_get E k = map_of (ex_table E) k"

text \<open>\<open>typeof E[k] === 'function'\<close>\<close>

definition is_func :: "'s exports_obj \<Rightarrow> jstr \<Rightarrow> bool" where
  "is_func E k = (case ex_get E k of Some (Func _) \<Rightarrow> True | _ \<Rightarrow> False)"

text \<open>\<open>E[k](...args)\<close>\<close>

definition call_export :: "'s exports_obj \<Rightarrow> jstr \<Rightarrow> i32 list \<Rightarrow> ('s inst, i32) comp" where
  "call_export E k args =
     (case ex_get E k of
        Some (Func f) \<Rightarrow> f (ex_imports E) args
      | _ \<Rightarrow> throwC (Fault (Not_a_function k)))"

definition memory_binding :: "(jstr \<times> 's export) list \<Rightarrow> binding" where
  "memory_binding tbl =
     (case map_of tbl (js ''memory'') of
        None \<Rightarrow> No_memory | Some Memory \<Rightarrow> Bound | Some _ \<Rightarrow> Not_memory)"

text \<open>Instantiation; the host's variable is assigned after the module's start function has run.\<close>

definition instantiate :: "'s wmodule \<Rightarrow> import_obj \<Rightarrow> exn + ('s exports_obj \<times> 's inst)" where
  "instantiate M imp =
     (case md_start M imp of
        Inl e \<Rightarrow> Inl e
      | Inr st \<Rightarrow>
          Inr (\<lparr>ex_table = md_exports M, ex_imports = imp\<rparr>,
               st\<lparr>in_lin := (in_lin st)\<lparr>lm_bound := memory_binding (md_exports M)\<rparr>\<rparr>))"

section \<open>Typed arrays over the linear memory\<close>

definition put_at :: "'a list \<Rightarrow> nat \<Rightarrow> 'a list \<Rightarrow> 'a list" where
  "put_at xs p ys = take p xs @ ys @ drop (p + length ys) xs"

definition mem_update :: "nat \<Rightarrow> byte list \<Rightarrow> 's inst \<Rightarrow> 's inst" where
  "mem_update p b st =
     st\<lparr>in_lin := (in_lin st)\<lparr>lm_bytes := put_at (lm_bytes (in_lin st)) p b\<rparr>\<rparr>"

abbreviation mem_of :: "'s inst \<Rightarrow> byte list" where
  "mem_of st \<equiv> lm_bytes (in_lin st)"

text \<open>\<open>new Uint8Array(E.memory.buffer)\<close>; a memory that is not one has no buffer: an empty array.\<close>

definition mem_view :: "'s exports_obj \<Rightarrow> ('s inst, byte list) comp" where
  "mem_view E st =
     (case ex_get E (js ''memory'') of
        None \<Rightarrow> (st, Inl (Fault (Undefined_base (js ''buffer''))))
      | Some Memory \<Rightarrow> (st, Inr (mem_of st))
      | Some _ \<Rightarrow> (st, Inr []))"

text \<open>\<open>new DataView(E.memory.buffer)\<close>\<close>

definition data_view :: "'s exports_obj \<Rightarrow> ('s inst, byte list) comp" where
  "data_view E st =
     (case ex_get E (js ''memory'') of
        None \<Rightarrow> (st, Inl (Fault (Undefined_base (js ''buffer''))))
      | Some Memory \<Rightarrow> (st, Inr (mem_of st))
      | Some _ \<Rightarrow> (st, Inl (Fault (Bad_argument (js ''buffer'')))))"

text \<open>\<open>mem().set(b, p)\<close>\<close>

definition mem_set :: "'s exports_obj \<Rightarrow> byte list \<Rightarrow> int \<Rightarrow> ('s inst, unit) comp" where
  "mem_set E b p =
     bindC (mem_view E) (\<lambda>m st.
       if p < 0 \<or> int (length m) < p + int (length b) then (st, Inl (Fault Out_of_range))
       else (mem_update (nat p) b st, Inr ()))"

definition le32 :: "byte list \<Rightarrow> i32" where
  "le32 bs = of_nat (foldr (\<lambda>b a. unat b + 256 * a) bs 0)"

text \<open>\<open>dv().getInt32(off, true)\<close>\<close>

definition get_int32 :: "'s exports_obj \<Rightarrow> int \<Rightarrow> ('s inst, int) comp" where
  "get_int32 E off =
     bindC (data_view E) (\<lambda>m.
       if off < 0 \<or> int (length m) < off + 4 then throwC (Fault Out_of_range)
       else returnC (sint (le32 (take 4 (drop (nat off) m)))))"

text \<open>\<open>a.slice(from, to)\<close>: negative positions count from the end, both are clamped.\<close>

definition clamp_index :: "nat \<Rightarrow> int \<Rightarrow> nat" where
  "clamp_index n k = (if k < 0 then nat (max (int n + k) 0) else min (nat k) n)"

definition js_slice :: "'a list \<Rightarrow> int \<Rightarrow> int \<Rightarrow> 'a list" where
  "js_slice xs a b =
     (let i = clamp_index (length xs) a; j = clamp_index (length xs) b
      in take (j - i) (drop i xs))"

section \<open>The string exchange\<close>

abbreviation malloc_name :: jstr where "malloc_name \<equiv> js ''__wbindgen_export2''"
abbreviation free_name :: jstr where "free_name \<equiv> js ''__wbindgen_export4''"
abbreviation sp_name :: jstr where "sp_name \<equiv> js ''__wbindgen_add_to_stack_pointer''"

text \<open>\<open>putStr\<close>, after encoding: \<open>n\<close> is the size asked of the allocator.\<close>

definition put_bytes :: "'s exports_obj \<Rightarrow> nat \<Rightarrow> byte list \<Rightarrow> ('s inst, i32 \<times> i32) comp" where
  "put_bytes E n b =
     bindC (call_export E malloc_name [of_nat n, 1]) (\<lambda>p.
     bindC (mem_set E b (sint p)) (\<lambda>_.
     returnC (p, of_nat (length b))))"

text \<open>The argument loop: \<open>for (const s of strs) { const [p, l] = putStr(s); args.push(p, l); }\<close>\<close>

fun push_args :: "('a \<Rightarrow> ('s inst, i32 \<times> i32) comp) \<Rightarrow> 'a list \<Rightarrow> ('s inst, i32 list) comp" where
  "push_args put [] = returnC []"
| "push_args put (s # ss) =
     bindC (put s) (\<lambda>(p, l). bindC (push_args put ss) (\<lambda>rest. returnC (p # l # rest)))"

text \<open>From the call of the export to the release of the result.\<close>

definition finish_call :: "'s exports_obj \<Rightarrow> jstr \<Rightarrow> i32 \<Rightarrow> i32 list \<Rightarrow> ('s inst, jstr) comp" where
  "finish_call E fn rp args =
     bindC (call_export E fn (rp # args)) (\<lambda>_.
     bindC (get_int32 E (sint rp + 0)) (\<lambda>r0.
     bindC (get_int32 E (sint rp + 4)) (\<lambda>r1.
     bindC (mem_view E) (\<lambda>m.
     let out = text_decode (js_slice m r0 (r0 + r1)) in
     bindC (call_export E sp_name [16]) (\<lambda>_.
     bindC (call_export E free_name [of_int r0, of_int r1, 1]) (\<lambda>_.
     returnC out))))))"

definition string_call ::
  "'s exports_obj \<Rightarrow> ('a \<Rightarrow> ('s inst, i32 \<times> i32) comp) \<Rightarrow> jstr \<Rightarrow> 'a list \<Rightarrow> ('s inst, jstr) comp" where
  "string_call E put fn ss =
     bindC (call_export E sp_name [-16]) (\<lambda>rp.
     bindC (push_args put ss) (\<lambda>args.
     finish_call E fn rp args))"

section \<open>The import the module calls\<close>

text \<open>The module calls it with two i32, read by JavaScript as signed numbers.\<close>

definition arg_int :: "i32 list \<Rightarrow> nat \<Rightarrow> int" where
  "arg_int args i = (if i < length args then sint (args ! i) else 0)"

text \<open>
  \<open>new Uint8Array(inst.exports.memory.buffer, ptr, len)\<close> filled with \<open>g len\<close> bytes. The fault \<open>u\<close> is
  the one of reading the unassigned variable; an undefined buffer makes an empty view, which the
  fill leaves empty.
\<close>

definition fill_view :: "fault \<Rightarrow> (lin \<Rightarrow> nat \<Rightarrow> exn + byte list) \<Rightarrow> import_fn" where
  "fill_view u g args l =
     (let ptr = arg_int args 0; len = arg_int args 1 in
      case lm_bound l of
        Unassigned \<Rightarrow> (l, Inl (Fault u))
      | No_memory \<Rightarrow> (l, Inl (Fault (Undefined_base (js ''buffer''))))
      | Not_memory \<Rightarrow> (l, Inr ())
      | Bound \<Rightarrow>
          (if ptr < 0 \<or> len < 0 \<or> int (length (lm_bytes l)) < ptr + len
           then (l, Inl (Fault Out_of_range))
           else case g l (nat len) of
             Inl e \<Rightarrow> (l, Inl e)
           | Inr bs \<Rightarrow>
               (l\<lparr>lm_bytes := put_at (lm_bytes l) (nat ptr) bs, lm_rng := Suc (lm_rng l)\<rparr>, Inr ())))"

text \<open>\<open>let inst;\<close> leaves undefined in the variable.\<close>

definition undefined_inst :: fault where
  "undefined_inst = Undefined_base (js ''exports'')"

text \<open>\<open>(i * 2654435761) % 256\<close>, in double arithmetic; the remainder of integers is exact.\<close>

definition fill_byte :: "nat \<Rightarrow> byte" where
  "fill_byte i = (case js_mul (int i) 2654435761 of NInt n \<Rightarrow> of_int (n mod 256) | _ \<Rightarrow> 0)"

definition fill_deterministic :: import_fn where
  "fill_deterministic = fill_view undefined_inst (\<lambda>_ n. Inr (map fill_byte [0..<n]))"

text \<open>\<open>__wbindgen_object_drop_ref: () => {}\<close>\<close>

definition drop_ref :: import_fn where
  "drop_ref args l = (l, Inr ())"

abbreviation glue_name :: jstr where "glue_name \<equiv> js ''./praxis_graphlaw_wasm_bg.js''"
abbreviation drop_name :: jstr where "drop_name \<equiv> js ''__wbindgen_object_drop_ref''"
abbreviation random_name :: jstr where
  "random_name \<equiv> js ''__wbg_getRandomValues_3f44b700395062e5''"

text \<open>The import object with its two functions.\<close>

definition two_imports :: "import_fn \<Rightarrow> import_obj" where
  "two_imports fill m k =
     (if m = glue_name then
        (if k = drop_name then Some drop_ref
         else if k = random_name then Some fill else None)
      else None)"

end
