(* ===== verification/Abi_Trace.thy ===== *)
theory Abi_Trace
  imports Wasm_Abi
begin

text \<open>
  Which exported functions a host calls, with which arguments and in which order. A module is
  instrumented: every call of one of its functions is appended to a log kept beside the module's own
  state. Instrumentation changes no result, and the log of a string exchange is the protocol of
  wasm-bindgen: reserve the return area, one allocation per argument, the call, restore, release.
\<close>

section \<open>Instrumented modules\<close>

type_synonym call = "jstr \<times> i32 list"
type_synonym 's logged = "'s \<times> call list"

definition erase :: "'s logged inst \<Rightarrow> 's inst" where
  "erase st = \<lparr>in_lin = in_lin st, in_priv = fst (in_priv st)\<rparr>"

definition log_of :: "'s logged inst \<Rightarrow> call list" where
  "log_of st = snd (in_priv st)"

definition logged :: "'s inst \<Rightarrow> call list \<Rightarrow> 's logged inst" where
  "logged st l = \<lparr>in_lin = in_lin st, in_priv = (in_priv st, l)\<rparr>"

fun traced_export :: "jstr \<Rightarrow> 's export \<Rightarrow> 's logged export" where
  "traced_export k (Func f) =
     Func (\<lambda>imp args st. case f imp args (erase st) of
       (st', r) \<Rightarrow> (logged st' (log_of st @ [(k, args)]), r))"
| "traced_export k Memory = Memory"
| "traced_export k Other_export = Other_export"

definition traced :: "'s exports_obj \<Rightarrow> 's logged exports_obj" where
  "traced E = \<lparr>ex_table = map (\<lambda>(k, x). (k, traced_export k x)) (ex_table E), ex_imports = ex_imports E\<rparr>"

lemma erase_logged [simp]: "erase (logged st l) = st" "log_of (logged st l) = l"
  "logged (erase t) (log_of t) = t"
  by (simp_all add: erase_def logged_def log_of_def)

lemma mem_erase [simp]: "mem_of (erase st) = mem_of st"
  by (simp add: erase_def)

lemma map_of_map_key: "map_of (map (\<lambda>(k, x). (k, h k x)) xs) k = map_option (h k) (map_of xs k)"
  by (induction xs) auto

lemma ex_get_traced: "ex_get (traced E) k = map_option (traced_export k) (ex_get E k)"
  by (simp add: ex_get_def traced_def map_of_map_key)

lemma is_func_traced [simp]: "is_func (traced E) k = is_func E k"
  by (auto simp: is_func_def ex_get_traced split: option.split export.split)

lemma ex_imports_traced [simp]: "ex_imports (traced E) = ex_imports E"
  by (simp add: traced_def)

section \<open>Transparency\<close>

text \<open>
  \<open>tracks P m' m\<close>: on every state the instrumented \<open>m'\<close> does what \<open>m\<close> does, and what it appends to
  the log are calls of functions in \<open>P\<close>.
\<close>

definition tracks :: "jstr set \<Rightarrow> ('s logged inst, 'a) comp \<Rightarrow> ('s inst, 'a) comp \<Rightarrow> bool" where
  "tracks P m' m \<longleftrightarrow>
     (\<forall>st. \<exists>l. m' st = (logged (fst (m (erase st))) (log_of st @ l), snd (m (erase st)))
        \<and> fst ` set l \<subseteq> P)"

named_theorems tracks_intros

lemma tracksI0:
  "(\<And>st. m' st = (logged (fst (m (erase st))) (log_of st), snd (m (erase st)))) \<Longrightarrow> tracks P m' m"
  unfolding tracks_def by (intro allI exI [of _ "[]"]) simp

lemma tracks_pure [tracks_intros]:
  "tracks P (returnC a) (returnC a)" "tracks P (throwC e) (throwC e)" "tracks P (liftC r) (liftC r)"
  by (auto intro!: tracksI0)

lemma tracks_bind [tracks_intros]:
  assumes "tracks P m' m" "\<And>a. tracks P (f' a) (f a)"
  shows "tracks P (bindC m' f') (bindC m f)"
  unfolding tracks_def
proof
  fix st
  obtain l where l: "m' st = (logged (fst (m (erase st))) (log_of st @ l), snd (m (erase st)))"
    "fst ` set l \<subseteq> P"
    using assms(1) unfolding tracks_def by blast
  obtain t r where m: "m (erase st) = (t, r)" by fastforce
  show "\<exists>l. bindC m' f' st = (logged (fst (bindC m f (erase st))) (log_of st @ l),
      snd (bindC m f (erase st))) \<and> fst ` set l \<subseteq> P"
  proof (cases r)
    case (Inl e)
    then show ?thesis using l m by (intro exI [of _ l]) (simp add: bindC_def)
  next
    case (Inr a)
    obtain k where "f' a (logged t (log_of st @ l)) = (logged (fst (f a t)) ((log_of st @ l) @ k), snd (f a t))"
      "fst ` set k \<subseteq> P"
      using assms(2) [of a] unfolding tracks_def by (metis erase_logged(1,2))
    then show ?thesis using l m Inr by (intro exI [of _ "l @ k"]) (auto simp: bindC_def)
  qed
qed

lemma tracks_split [tracks_intros]:
  "(\<And>a b. x = (a, b) \<Longrightarrow> tracks P (f' a b) (f a b)) \<Longrightarrow> tracks P (case x of (a, b) \<Rightarrow> f' a b) (case x of (a, b) \<Rightarrow> f a b)"
  "tracks P (h' y) (h y) \<Longrightarrow> tracks P (Let y h') (Let y h)"
  "(c \<Longrightarrow> tracks P m' m) \<Longrightarrow> (\<not> c \<Longrightarrow> tracks P n' n) \<Longrightarrow> tracks P (if c then m' else n') (if c then m else n)"
  by (cases x) auto

lemma tracks_sum [tracks_intros]:
  "(\<And>a. x = Inl a \<Longrightarrow> tracks P (f' a) (f a)) \<Longrightarrow> (\<And>b. x = Inr b \<Longrightarrow> tracks P (g' b) (g b)) \<Longrightarrow>
     tracks P (case x of Inl a \<Rightarrow> f' a | Inr b \<Rightarrow> g' b) (case x of Inl a \<Rightarrow> f a | Inr b \<Rightarrow> g b)"
  by (cases x) auto

text \<open>A \<open>try\<close> statement whose handler only makes a value of the exception.\<close>

lemma tracks_try:
  assumes "tracks P m' m"
  shows "tracks P (\<lambda>st. case m' st of (t, r) \<Rightarrow> (t, h r)) (\<lambda>st. case m st of (t, r) \<Rightarrow> (t, h r))"
  unfolding tracks_def
proof
  fix st
  obtain l where "m' st = (logged (fst (m (erase st))) (log_of st @ l), snd (m (erase st)))"
    "fst ` set l \<subseteq> P"
    using assms unfolding tracks_def by blast
  then show "\<exists>l. (case m' st of (t, r) \<Rightarrow> (t, h r)) =
      (logged (fst (case m (erase st) of (t, r) \<Rightarrow> (t, h r))) (log_of st @ l),
       snd (case m (erase st) of (t, r) \<Rightarrow> (t, h r))) \<and> fst ` set l \<subseteq> P"
    by (intro exI [of _ l]) (simp split: prod.split)
qed

lemma call_traced:
  "call_export (traced E) k args st =
     (case call_export E k args (erase st) of
        (t, r) \<Rightarrow> (logged t (log_of st @ (if is_func E k then [(k, args)] else [])), r))"
  by (auto simp: call_export_def ex_get_traced is_func_def split: option.split export.split prod.split)

lemma tracks_call [tracks_intros]:
  "k \<in> P \<Longrightarrow> tracks P (call_export (traced E) k args) (call_export E k args)"
  unfolding tracks_def
  by (auto simp: call_traced split: prod.split intro: exI [of _ "[]"] exI [of _ "[(k, args)]"])

lemma mem_view_traced: "mem_view (traced E) st =
    (logged (fst (mem_view E (erase st))) (log_of st), snd (mem_view E (erase st)))"
  by (auto simp: mem_view_def ex_get_traced split: option.split export.split)

lemma data_view_traced: "data_view (traced E) st =
    (logged (fst (data_view E (erase st))) (log_of st), snd (data_view E (erase st)))"
  by (auto simp: data_view_def ex_get_traced split: option.split export.split)

lemma mem_set_traced: "mem_set (traced E) b p st =
    (logged (fst (mem_set E b p (erase st))) (log_of st), snd (mem_set E b p (erase st)))"
  by (auto simp: mem_set_def bindC_def mem_view_traced mem_update_def logged_def erase_def log_of_def
      split: prod.split sum.split)

lemma tracks_memory [tracks_intros]:
  "tracks P (mem_view (traced E)) (mem_view E)" "tracks P (data_view (traced E)) (data_view E)"
  "tracks P (mem_set (traced E) b p) (mem_set E b p)"
  by (rule tracksI0, simp add: mem_view_traced data_view_traced mem_set_traced)+

lemma tracks_get_int32 [tracks_intros]: "tracks P (get_int32 (traced E) off) (get_int32 E off)"
  unfolding get_int32_def by (intro tracks_intros)

abbreviation abi_names :: "jstr set" where "abi_names \<equiv> {sp_name, malloc_name, free_name}"

lemma tracks_put [tracks_intros]:
  "malloc_name \<in> P \<Longrightarrow> tracks P (put_bytes (traced E) n b) (put_bytes E n b)"
  unfolding put_bytes_def by (intro tracks_intros) auto

lemma tracks_push [tracks_intros]:
  "(\<And>s. tracks P (put' s) (put s)) \<Longrightarrow> tracks P (push_args put' ss) (push_args put ss)"
  by (induction ss) (auto intro!: tracks_intros)

lemma tracks_finish [tracks_intros]:
  "insert fn abi_names \<subseteq> P \<Longrightarrow> tracks P (finish_call (traced E) fn rp args) (finish_call E fn rp args)"
  unfolding finish_call_def by (intro tracks_intros) auto

lemma tracks_string_call [tracks_intros]:
  "insert fn abi_names \<subseteq> P \<Longrightarrow> (\<And>s. tracks P (put' s) (put s)) \<Longrightarrow>
     tracks P (string_call (traced E) put' fn ss) (string_call E put fn ss)"
  unfolding string_call_def by (intro tracks_intros) auto

lemma tracksD:
  assumes "tracks P m' m"
  shows "snd (m' st) = snd (m (erase st))" "erase (fst (m' st)) = fst (m (erase st))"
    "\<exists>l. log_of (fst (m' st)) = log_of st @ l \<and> fst ` set l \<subseteq> P"
proof -
  obtain l where "m' st = (logged (fst (m (erase st))) (log_of st @ l), snd (m (erase st)))"
    "fst ` set l \<subseteq> P"
    using assms unfolding tracks_def by blast
  then show "snd (m' st) = snd (m (erase st))" "erase (fst (m' st)) = fst (m (erase st))"
    "\<exists>l. log_of (fst (m' st)) = log_of st @ l \<and> fst ` set l \<subseteq> P"
    by auto
qed

text \<open>The same from an empty log.\<close>

lemma tracks_fresh:
  assumes "tracks P m' m"
  shows "snd (m' (logged st [])) = snd (m st)" "erase (fst (m' (logged st []))) = fst (m st)"
    "fst ` set (log_of (fst (m' (logged st [])))) \<subseteq> P"
  using tracksD [OF assms, of "logged st []"] by auto

section \<open>The protocol of one exchange\<close>

text \<open>
  The calls of a successful exchange for arguments of the encodings \<open>bs\<close>, allocated at \<open>ps\<close>:
  \<open>sz\<close> is the size asked of the allocator for an encoding.
\<close>

definition arg_words :: "i32 list \<Rightarrow> byte list list \<Rightarrow> i32 list" where
  "arg_words ps bs = concat (map2 (\<lambda>p b. [p, of_nat (length b)]) ps bs)"

definition exchange_log ::
  "(byte list \<Rightarrow> nat) \<Rightarrow> jstr \<Rightarrow> i32 \<Rightarrow> i32 list \<Rightarrow> byte list list \<Rightarrow> i32 \<Rightarrow> i32 \<Rightarrow> call list" where
  "exchange_log sz fn rp ps bs r0 r1 =
     [(sp_name, [-16])]
     @ map (\<lambda>b. (malloc_name, [of_nat (sz b), 1])) bs
     @ [(fn, rp # arg_words ps bs), (sp_name, [16]), (free_name, [r0, r1, 1])]"

lemma call_ok_func: "call_export E k args st = (t, Inr a) \<Longrightarrow> is_func E k"
  by (auto simp: call_export_def is_func_def split: option.splits export.splits)

lemma call_ok_log:
  "call_export (traced E) k args st = (t, Inr a) \<Longrightarrow> log_of t = log_of st @ [(k, args)]"
  using call_ok_func [of "traced E" k args st t a] by (auto simp: call_traced split: prod.splits)

lemma memory_log:
  "mem_view (traced E) st = (t, r) \<Longrightarrow> log_of t = log_of st"
  "mem_set (traced E) b p st = (t, u) \<Longrightarrow> log_of t = log_of st"
  "get_int32 (traced E) off st = (t, i) \<Longrightarrow> log_of t = log_of st"
proof -
  show "mem_view (traced E) st = (t, r) \<Longrightarrow> log_of t = log_of st"
    by (metis mem_view_traced fst_conv erase_logged(2))
  show "mem_set (traced E) b p st = (t, u) \<Longrightarrow> log_of t = log_of st"
    by (metis mem_set_traced fst_conv erase_logged(2))
  have "fst (get_int32 (traced E) off st) = st"
    by (auto simp: get_int32_def bindC_def data_view_def split: option.split export.split)
  then show "get_int32 (traced E) off st = (t, i) \<Longrightarrow> log_of t = log_of st" by simp
qed

text \<open>
  What a successful exchange is, call by call. \<open>placed\<close>: every argument is written at the address
  the allocator returned for it. \<open>exchanged\<close>: the return area is at the stack pointer's address
  \<open>rp\<close>, the export receives it and the addresses and lengths of the arguments, the answer's address
  \<open>r0\<close> and length \<open>r1\<close> are the two little-endian words the export left at \<open>rp\<close>, the answer is the text
  of those bytes, and exactly that range is released after the stack pointer is restored.
\<close>

inductive placed ::
  "(byte list \<Rightarrow> nat) \<Rightarrow> 's exports_obj \<Rightarrow> byte list list \<Rightarrow> 's inst \<Rightarrow> i32 list \<Rightarrow> 's inst \<Rightarrow> bool"
  for sz E where
  placed_none: "placed sz E [] st [] st"
| placed_arg: "call_export E malloc_name [of_nat (sz b), 1] st = (u, Inr p) \<Longrightarrow>
    mem_set E b (sint p) u = (v, Inr ()) \<Longrightarrow> placed sz E bs v ps t \<Longrightarrow> placed sz E (b # bs) st (p # ps) t"

definition return_word :: "'s inst \<Rightarrow> int \<Rightarrow> i32" where
  "return_word st off = le32 (take 4 (drop (nat off) (mem_of st)))"

definition exchanged :: "(byte list \<Rightarrow> nat) \<Rightarrow> 's exports_obj \<Rightarrow> jstr \<Rightarrow> byte list list \<Rightarrow> 's inst \<Rightarrow>
    i32 \<Rightarrow> i32 list \<Rightarrow> i32 \<Rightarrow> i32 \<Rightarrow> 's inst \<Rightarrow> jstr \<Rightarrow> bool" where
  "exchanged sz E fn bs st rp ps r0 r1 t out \<longleftrightarrow>
     (\<exists>s1 s2 s3 s4 x y z.
        call_export E sp_name [-16] st = (s1, Inr rp)
      \<and> placed sz E bs s1 ps s2
      \<and> call_export E fn (rp # arg_words ps bs) s2 = (s3, Inr x)
      \<and> 0 \<le> sint rp \<and> sint rp + 8 \<le> int (length (mem_of s3))
      \<and> r0 = return_word s3 (sint rp) \<and> r1 = return_word s3 (sint rp + 4)
      \<and> out = text_decode (js_slice (mem_of s3) (sint r0) (sint r0 + sint r1))
      \<and> call_export E sp_name [16] s3 = (s4, Inr y)
      \<and> call_export E free_name [r0, r1, 1] s4 = (t, Inr z))"

lemma get_int32_ok:
  assumes "get_int32 E off st = (t, Inr i)"
  shows "t = st" "ex_get E (js ''memory'') = Some Memory" "0 \<le> off" "off + 4 \<le> int (length (mem_of st))"
    "i = sint (return_word st off)"
  using assms by (auto simp: get_int32_def data_view_def bindC_Inr_iff return_word_def split: option.splits export.splits if_splits)

lemma put_ok_placed:
  assumes "put_bytes E (sz b) b st = (t, Inr (p, l))"
  shows "placed sz E [b] st [p] t" "l = of_nat (length b)"
  using assms by (auto simp: put_bytes_def bindC_Inr_iff intro!: placed.intros)

lemma placed_Cons: "placed sz E [b] st [p] u \<Longrightarrow> placed sz E bs u ps t \<Longrightarrow> placed sz E (b # bs) st (p # ps) t"
  by (auto elim!: placed.cases [of _ _ "[b]"] placed.cases [of _ _ "[]"] intro: placed_arg)

lemma push_ok_placed:
  assumes "push_args (\<lambda>s. put_bytes E (sz (enc s)) (enc s)) ss st = (t, Inr args)"
  shows "\<exists>ps. placed sz E (map enc ss) st ps t \<and> args = arg_words ps (map enc ss)"
  using assms
proof (induction ss arbitrary: st args)
  case Nil
  then show ?case by (auto simp: arg_words_def intro: placed_none)
next
  case (Cons s ss)
  then obtain st1 p l rest where put: "put_bytes E (sz (enc s)) (enc s) st = (st1, Inr (p, l))"
    and push: "push_args (\<lambda>s. put_bytes E (sz (enc s)) (enc s)) ss st1 = (t, Inr rest)"
    and args: "args = p # l # rest"
    by (auto simp: bindC_Inr_iff)
  obtain ps where "placed sz E (map enc ss) st1 ps t" "rest = arg_words ps (map enc ss)"
    using Cons.IH [OF push] by blast
  then show ?case
    using put_ok_placed [of E sz "enc s" st st1 p l, OF put] args placed_Cons [of sz E "enc s" st p st1]
    by (intro exI [of _ "p # ps"]) (simp add: arg_words_def)
qed

theorem exchange_chain:
  assumes "string_call E (\<lambda>s. put_bytes E (sz (enc s)) (enc s)) fn ss st = (t, Inr out)"
  shows "\<exists>rp ps r0 r1. exchanged sz E fn (map enc ss) st rp ps r0 r1 t out"
proof -
  obtain s1 s2 rp args where sp: "call_export E sp_name [-16] st = (s1, Inr rp)"
    and push: "push_args (\<lambda>s. put_bytes E (sz (enc s)) (enc s)) ss s1 = (s2, Inr args)"
    and fin: "finish_call E fn rp args s2 = (t, Inr out)"
    using assms unfolding string_call_def bindC_Inr_iff by blast
  obtain ps where ps: "placed sz E (map enc ss) s1 ps s2" "args = arg_words ps (map enc ss)"
    using push_ok_placed [OF push] by blast
  obtain x s3 i u3 j u4 m s5 y s6 z where fn: "call_export E fn (rp # args) s2 = (s3, Inr x)"
    and i: "get_int32 E (sint rp + 0) s3 = (u3, Inr i)" and j: "get_int32 E (sint rp + 4) u3 = (u4, Inr j)"
    and m: "mem_view E u4 = (s5, Inr m)"
    and rest: "out = text_decode (js_slice m i (i + j))" "call_export E sp_name [16] s5 = (s6, Inr y)"
      "call_export E free_name [of_int i, of_int j, 1] s6 = (t, Inr z)"
    using fin unfolding finish_call_def Let_def by (auto simp: bindC_Inr_iff)
  have "u4 = s3" "i = sint (return_word s3 (sint rp))" "j = sint (return_word s3 (sint rp + 4))"
    "0 \<le> sint rp" "sint rp + 8 \<le> int (length (mem_of s3))"
    using get_int32_ok [OF i] get_int32_ok [OF j] by auto
  moreover have "m = mem_of s3" "s5 = s3"
    using m calculation(1) get_int32_ok(2) [OF i] by (auto simp: mem_view_def)
  ultimately show ?thesis
    using sp ps(1) fn [unfolded ps(2)] rest unfolding exchanged_def by (simp, blast)
qed

text \<open>Its log, and the same exchange on the module without the log.\<close>

lemma call_erase: "call_export (traced E) k args st = (t, r) \<Longrightarrow> call_export E k args (erase st) = (erase t, r)"
  by (auto simp: call_traced split: prod.splits)

lemma mem_set_erase: "mem_set (traced E) b p st = (t, r) \<Longrightarrow> mem_set E b p (erase st) = (erase t, r)"
  by (auto simp: mem_set_traced prod_eq_iff)

lemma placed_log: "placed sz (traced E) bs st ps t \<Longrightarrow>
    length ps = length bs \<and> log_of t = log_of st @ map (\<lambda>b. (malloc_name, [of_nat (sz b), 1])) bs"
  by (induction rule: placed.induct) (auto dest!: call_ok_log memory_log)

lemma placed_erase: "placed sz (traced E) bs st ps t \<Longrightarrow> placed sz E bs (erase st) ps (erase t)"
  by (induction rule: placed.induct) (auto intro: placed.intros dest!: call_erase mem_set_erase)

lemma exchanged_log:
  assumes "exchanged sz (traced E) fn bs st rp ps r0 r1 t out"
  shows "length ps = length bs \<and> log_of t = log_of st @ exchange_log sz fn rp ps bs r0 r1"
  using assms unfolding exchanged_def exchange_log_def
  by (auto dest!: call_ok_log placed_log)

lemma exchanged_erase:
  assumes "exchanged sz (traced E) fn bs st rp ps r0 r1 t out"
  shows "exchanged sz E fn bs (erase st) rp ps r0 r1 (erase t) out"
proof -
  obtain s1 s2 s3 s4 x y z where
    calls: "call_export (traced E) sp_name [-16] st = (s1, Inr rp)"
      "call_export (traced E) fn (rp # arg_words ps bs) s2 = (s3, Inr x)"
      "call_export (traced E) sp_name [16] s3 = (s4, Inr y)"
      "call_export (traced E) free_name [r0, r1, 1] s4 = (t, Inr z)"
    and placed: "placed sz (traced E) bs s1 ps s2"
    and words: "0 \<le> sint rp" "sint rp + 8 \<le> int (length (mem_of s3))"
      "r0 = return_word s3 (sint rp)" "r1 = return_word s3 (sint rp + 4)"
      "out = text_decode (js_slice (mem_of s3) (sint r0) (sint r0 + sint r1))"
    using assms unfolding exchanged_def by blast
  have "0 \<le> sint rp \<and> sint rp + 8 \<le> int (length (mem_of (erase s3)))
      \<and> r0 = return_word (erase s3) (sint rp) \<and> r1 = return_word (erase s3) (sint rp + 4)
      \<and> out = text_decode (js_slice (mem_of (erase s3)) (sint r0) (sint r0 + sint r1))"
    using words unfolding return_word_def mem_erase by blast
  then show ?thesis
    using placed_erase [OF placed] calls [THEN call_erase] unfolding exchanged_def by blast
qed

theorem exchange_protocol:
  assumes "string_call (traced E) (\<lambda>s. put_bytes (traced E) (sz (enc s)) (enc s)) fn ss st = (t, Inr out)"
  shows "\<exists>rp ps r0 r1. exchanged sz E fn (map enc ss) (erase st) rp ps r0 r1 (erase t) out
      \<and> length ps = length ss
      \<and> log_of t = log_of st @ exchange_log sz fn rp ps (map enc ss) r0 r1"
proof -
  obtain rp ps r0 r1 where e: "exchanged sz (traced E) fn (map enc ss) st rp ps r0 r1 t out"
    using exchange_chain [of "traced E" sz enc fn ss st t out] assms by blast
  show ?thesis
    using exchanged_log [OF e] exchanged_erase [OF e]
    by (intro exI [of _ rp] exI [of _ ps] exI [of _ r0] exI [of _ r1]) simp
qed

section \<open>The stack pointer after a failed exchange\<close>

text \<open>An export that never traps.\<close>

definition steady :: "'s exports_obj \<Rightarrow> jstr \<Rightarrow> bool" where
  "steady E k \<longleftrightarrow> (\<forall>args st. \<exists>t r. call_export E k args st = (t, Inr r))"

lemma steady_traced: "steady E k \<Longrightarrow> \<exists>t r. call_export (traced E) k args st = (t, Inr r)"
  unfolding steady_def call_traced by (metis (no_types, lifting) case_prod_conv)

lemma steady_not_failed: "steady E k \<Longrightarrow> call_export (traced E) k args st \<noteq> (t, Inl e)"
  using steady_traced [of E k args st] by auto

lemma finish_failed_log:
  assumes "finish_call (traced E) fn rp args st = (t, Inl e)" "steady E sp_name" "steady E free_name"
  shows "\<exists>l. log_of t = log_of st @ l \<and> fst ` set l \<subseteq> {fn}"
proof -
  let ?m = "\<lambda>E. bindC (call_export E fn (rp # args)) (\<lambda>_. bindC (get_int32 E (sint rp + 0)) (\<lambda>r0.
      bindC (get_int32 E (sint rp + 4)) (\<lambda>r1. bindC (mem_view E) (\<lambda>m. returnC (r0, r1, m)))))"
  have "?m (traced E) st = (t, Inl e)"
    using assms steady_not_failed
    unfolding finish_call_def Let_def bindC_Inl_iff bindC_Inr_iff
    by (auto simp: steady_not_failed)
  moreover have "tracks {fn} (?m (traced E)) (?m E)"
    by (intro tracks_intros) simp
  ultimately show ?thesis using tracksD(3) [of "{fn}" "?m (traced E)" "?m E" st] by auto
qed

theorem exchange_leak:
  assumes "string_call (traced E) (\<lambda>s. put_bytes (traced E) (sz s) (enc s)) fn ss st = (t, Inl e)"
    and "steady E sp_name" "steady E free_name"
  shows "\<exists>l. log_of t = log_of st @ (sp_name, [-16]) # l \<and> fst ` set l \<subseteq> {malloc_name, fn}"
proof -
  obtain st1 rp where sp: "call_export (traced E) sp_name [-16] st = (st1, Inr rp)"
    using steady_traced [OF assms(2)] by blast
  let ?push = "\<lambda>E. push_args (\<lambda>s. put_bytes E (sz s) (enc s)) ss"
  have "tracks {malloc_name, fn} (?push (traced E)) (?push E)"
    by (intro tracks_intros) simp
  note push = tracksD(3) [OF this, of st1]
  have log1: "log_of st1 = log_of st @ [(sp_name, [-16])]"
    using call_ok_log [OF sp] .
  consider "?push (traced E) st1 = (t, Inl e)"
    | st2 args where "?push (traced E) st1 = (st2, Inr args)" "finish_call (traced E) fn rp args st2 = (t, Inl e)"
    using assms(1) sp by (auto simp: string_call_def bindC_Inl_iff)
  then show ?thesis
  proof cases
    case 1
    then show ?thesis using push log1 by auto
  next
    case 2
    then obtain k where "log_of st2 = log_of st1 @ k" "fst ` set k \<subseteq> {malloc_name, fn}"
      using push by auto
    moreover obtain l where "log_of t = log_of st2 @ l" "fst ` set l \<subseteq> {fn}"
      using finish_failed_log [OF 2(2) assms(2,3)] by blast
    ultimately show ?thesis using log1 by (intro exI [of _ "k @ l"]) auto
  qed
qed

end
