(* ===== verification/Abi_Serve.thy ===== *)
theory Abi_Serve
  imports Abi_Trace
begin

text \<open>
  What the hosts rely on in the module, as the contract of a service: the wasm-bindgen calling
  convention. Under it an exchange returns the service's answer to exactly the caller's strings and
  leaves the instance ready for the next one. A small module that meets the contract is given.
\<close>

section \<open>The contract\<close>

text \<open>
  \<open>sv_table\<close> gives each served export its number of parameters and its function on strings; \<open>sv_idle\<close>,
  \<open>sv_busy\<close> and \<open>sv_done\<close> are the module's invariants between exchanges, while arguments are placed
  (return area and blocks so far) and while a result waits to be freed; \<open>sv_cap\<close> bounds the size of
  one argument, \<open>sv_args\<close> their number.
\<close>

record 's service =
  sv_table :: "jstr \<Rightarrow> (nat \<times> (jstr list \<Rightarrow> jstr)) option"
  sv_cap :: nat
  sv_args :: nat
  sv_idle :: "'s inst \<Rightarrow> bool"
  sv_busy :: "'s inst \<Rightarrow> i32 \<Rightarrow> (i32 \<times> jstr) list \<Rightarrow> bool"
  sv_done :: "'s inst \<Rightarrow> i32 \<Rightarrow> i32 \<Rightarrow> bool"

definition reserves :: "'s exports_obj \<Rightarrow> 's service \<Rightarrow> bool" where
  "reserves E sv \<longleftrightarrow> (\<forall>st. sv_idle sv st \<longrightarrow>
     (\<exists>t rp. call_export E sp_name [-16] st = (t, Inr rp) \<and> sv_busy sv t rp []))"

text \<open>An allocation lies inside the memory and nothing else uses it.\<close>

definition allocates :: "'s exports_obj \<Rightarrow> 's service \<Rightarrow> bool" where
  "allocates E sv \<longleftrightarrow> (\<forall>st rp bs n.
     sv_busy sv st rp bs \<and> length bs < sv_args sv \<and> n \<le> sv_cap sv \<longrightarrow>
     (\<exists>t p. call_export E malloc_name [of_nat n, 1] st = (t, Inr p)
        \<and> 0 \<le> sint p \<and> nat (sint p) + n \<le> length (mem_of t)
        \<and> (\<forall>s. length (utf8_encode s) \<le> n \<longrightarrow>
             sv_busy sv (mem_update (nat (sint p)) (utf8_encode s) t) rp (bs @ [(p, s)]))))"

text \<open>The called export leaves address and length of its answer in the return area.\<close>

definition holds_result :: "byte list \<Rightarrow> i32 \<Rightarrow> i32 \<Rightarrow> i32 \<Rightarrow> byte list \<Rightarrow> bool" where
  "holds_result m rp r0 r1 b \<longleftrightarrow>
     0 \<le> sint rp \<and> nat (sint rp) + 8 \<le> length m
     \<and> le32 (take 4 (drop (nat (sint rp)) m)) = r0
     \<and> le32 (take 4 (drop (nat (sint rp) + 4) m)) = r1
     \<and> 0 \<le> sint r0 \<and> sint r1 = int (length b)
     \<and> nat (sint r0) + length b \<le> length m
     \<and> take (length b) (drop (nat (sint r0)) m) = b"

definition answers_call :: "'s exports_obj \<Rightarrow> 's service \<Rightarrow> bool" where
  "answers_call E sv \<longleftrightarrow> (\<forall>st rp bs fn f.
     sv_busy sv st rp bs \<and> sv_table sv fn = Some (length bs, f) \<longrightarrow>
     (\<exists>t r r0 r1. call_export E fn
          (rp # arg_words (map fst bs) (map (\<lambda>b. utf8_encode (snd b)) bs)) st = (t, Inr r)
        \<and> holds_result (mem_of t) rp r0 r1 (utf8_encode (f (map snd bs))) \<and> sv_done sv t r0 r1))"

definition releases :: "'s exports_obj \<Rightarrow> 's service \<Rightarrow> bool" where
  "releases E sv \<longleftrightarrow> (\<forall>st r0 r1. sv_done sv st r0 r1 \<longrightarrow>
     (\<exists>t u a b. call_export E sp_name [16] st = (t, Inr a)
        \<and> call_export E free_name [r0, r1, 1] t = (u, Inr b) \<and> sv_idle sv u))"

definition serves :: "'s exports_obj \<Rightarrow> 's service \<Rightarrow> bool" where
  "serves E sv \<longleftrightarrow> ex_get E (js ''memory'') = Some Memory \<and> (\<forall>fn \<in> dom (sv_table sv). is_func E fn)
     \<and> reserves E sv \<and> allocates E sv \<and> answers_call E sv \<and> releases E sv"

section \<open>One exchange under the contract\<close>

lemma serves_memory: "serves E sv \<Longrightarrow> mem_view E st = (st, Inr (mem_of st))"
    "serves E sv \<Longrightarrow> data_view E st = (st, Inr (mem_of st))"
  by (simp_all add: serves_def mem_view_def data_view_def)

lemma mem_set_serves:
  assumes "serves E sv" "0 \<le> sint p" "nat (sint p) + length b \<le> length (mem_of st)"
  shows "mem_set E b (sint p) st = (mem_update (nat (sint p)) b st, Inr ())"
  using assms by (simp add: mem_set_def serves_memory)

lemma get_int32_serves:
  assumes "serves E sv" "0 \<le> off" "nat off + 4 \<le> length (mem_of st)"
  shows "get_int32 E off st = (st, Inr (sint (le32 (take 4 (drop (nat off) (mem_of st))))))"
  using assms by (simp add: get_int32_def serves_memory)

lemma js_slice_in:
  "i + n \<le> length xs \<Longrightarrow> js_slice xs (int i) (int i + int n) = take n (drop i xs)"
  by (simp add: js_slice_def clamp_index_def Let_def nat_add_distrib)

lemma put_serves:
  assumes "serves E sv" "sv_busy sv st rp bs" "length bs < sv_args sv" "n \<le> sv_cap sv"
    and "length (utf8_encode s) \<le> n"
  shows "\<exists>t p. put_bytes E n (utf8_encode s) st = (t, Inr (p, of_nat (length (utf8_encode s))))
      \<and> sv_busy sv t rp (bs @ [(p, s)])"
proof -
  obtain t p where m: "call_export E malloc_name [of_nat n, 1] st = (t, Inr p)"
    and p: "0 \<le> sint p" "nat (sint p) + n \<le> length (mem_of t)"
    and b: "sv_busy sv (mem_update (nat (sint p)) (utf8_encode s) t) rp (bs @ [(p, s)])"
    using assms unfolding serves_def allocates_def by blast
  have "mem_set E (utf8_encode s) (sint p) t = (mem_update (nat (sint p)) (utf8_encode s) t, Inr ())"
    by (rule mem_set_serves) (use assms p in auto)
  then show ?thesis using m b by (simp add: put_bytes_def)
qed

text \<open>\<open>sz\<close> is the size a host asks for: the length, or at least one byte.\<close>

lemma push_serves:
  assumes "serves E sv" "\<And>b. length b \<le> sz b"
    and "sv_busy sv st rp bs" "length bs + length ss \<le> sv_args sv"
    and "\<forall>s \<in> set ss. sz (utf8_encode s) \<le> sv_cap sv"
  shows "\<exists>t ps. push_args (\<lambda>s. put_bytes E (sz (utf8_encode s)) (utf8_encode s)) ss st
        = (t, Inr (arg_words ps (map utf8_encode ss)))
      \<and> length ps = length ss \<and> sv_busy sv t rp (bs @ zip ps ss)"
  using assms(3-)
proof (induction ss arbitrary: st bs)
  case Nil
  then show ?case by (simp add: arg_words_def)
next
  case (Cons s ss)
  obtain t p where put: "put_bytes E (sz (utf8_encode s)) (utf8_encode s) st
        = (t, Inr (p, of_nat (length (utf8_encode s))))" "sv_busy sv t rp (bs @ [(p, s)])"
    using put_serves [OF assms(1) Cons.prems(1), of "sz (utf8_encode s)" s] assms(2) Cons.prems by auto
  obtain u ps where "push_args (\<lambda>s. put_bytes E (sz (utf8_encode s)) (utf8_encode s)) ss t
        = (u, Inr (arg_words ps (map utf8_encode ss)))"
      "length ps = length ss" "sv_busy sv u rp ((bs @ [(p, s)]) @ zip ps ss)"
    using Cons.IH [OF put(2)] Cons.prems by auto
  then show ?case using put(1)
    by (intro exI [of _ u] exI [of _ "p # ps"]) (simp add: arg_words_def)
qed

lemma finish_serves:
  assumes "serves E sv" "sv_busy sv st rp bs" "sv_table sv fn = Some (length bs, f)"
  shows "\<exists>t. finish_call E fn rp (arg_words (map fst bs) (map (\<lambda>b. utf8_encode (snd b)) bs)) st
        = (t, Inr (text_decode (utf8_encode (f (map snd bs))))) \<and> sv_idle sv t"
proof -
  let ?b = "utf8_encode (f (map snd bs))"
  obtain t r r0 r1 where call: "call_export E fn
        (rp # arg_words (map fst bs) (map (\<lambda>b. utf8_encode (snd b)) bs)) st = (t, Inr r)"
    and h: "holds_result (mem_of t) rp r0 r1 ?b" and d: "sv_done sv t r0 r1"
    using assms unfolding serves_def answers_call_def by blast
  obtain u v a c where rel: "call_export E sp_name [16] t = (u, Inr a)"
    "call_export E free_name [r0, r1, 1] u = (v, Inr c)" "sv_idle sv v"
    using assms(1) d unfolding serves_def releases_def by blast
  have "get_int32 E (sint rp + 0) t = (t, Inr (sint r0))"
    using get_int32_serves [OF assms(1), of "sint rp" t] h by (simp add: holds_result_def)
  moreover have "get_int32 E (sint rp + 4) t = (t, Inr (sint r1))"
    using get_int32_serves [OF assms(1), of "sint rp + 4" t] h
    by (simp add: holds_result_def nat_add_distrib)
  moreover have "js_slice (mem_of t) (sint r0) (sint r0 + sint r1) = ?b"
    using js_slice_in [of "nat (sint r0)" "length ?b" "mem_of t"] h by (simp add: holds_result_def)
  ultimately show ?thesis
    using call rel serves_memory [OF assms(1)] by (simp add: finish_call_def Let_def)
qed

theorem exchange_serves:
  assumes "serves E sv" "\<And>b. length b \<le> sz b" "sv_idle sv st"
    and "sv_table sv fn = Some (length ss, f)" "length ss \<le> sv_args sv"
    and "\<forall>s \<in> set ss. sz (utf8_encode s) \<le> sv_cap sv"
  shows "\<exists>t. string_call E (\<lambda>s. put_bytes E (sz (utf8_encode s)) (utf8_encode s)) fn ss st
        = (t, Inr (to_well_formed (drop_bom (f ss)))) \<and> sv_idle sv t"
proof -
  obtain t rp where sp: "call_export E sp_name [-16] st = (t, Inr rp)" "sv_busy sv t rp []"
    using assms unfolding serves_def reserves_def by blast
  obtain u ps where push: "push_args (\<lambda>s. put_bytes E (sz (utf8_encode s)) (utf8_encode s)) ss t
        = (u, Inr (arg_words ps (map utf8_encode ss)))"
      "length ps = length ss" "sv_busy sv u rp (zip ps ss)"
    using push_serves [OF assms(1,2) sp(2), of ss] assms by auto
  have "map (\<lambda>b. utf8_encode (snd b)) (zip ps ss) = map utf8_encode (map snd (zip ps ss))" by simp
  then have args: "map fst (zip ps ss) = ps" "map (\<lambda>b. utf8_encode (snd b)) (zip ps ss) = map utf8_encode ss"
    "map snd (zip ps ss) = ss"
    using push(2) by simp_all
  show ?thesis
    using finish_serves [OF assms(1) push(3), of fn f] assms(4) sp(1) push(1,2) args
    by (simp add: string_call_def text_decode_encode)
qed

lemma push_args_map: "push_args put (map h ss) = push_args (\<lambda>s. put (h s)) ss"
  by (induction ss) simp_all

lemma string_call_map: "string_call E put fn (map h ss) = string_call E (\<lambda>s. put (h s)) fn ss"
  by (simp add: string_call_def push_args_map)

section \<open>Calls a service can answer\<close>

definition answerable :: "'s service \<Rightarrow> jstr \<times> jstr list \<Rightarrow> bool" where
  "answerable sv c \<longleftrightarrow>
     map_option fst (sv_table sv (fst c)) = Some (length (snd c)) \<and> length (snd c) \<le> sv_args sv
     \<and> list_all (\<lambda>s. max (length (utf8_encode s)) 1 \<le> sv_cap sv) (snd c)"

definition service_answer :: "'s service \<Rightarrow> jstr \<times> jstr list \<Rightarrow> jstr" where
  "service_answer sv c =
     (case sv_table sv (fst c) of
        Some (n, f) \<Rightarrow> to_well_formed (drop_bom (f (snd c)))
      | None \<Rightarrow> [])"

lemma answerable_func: "serves E sv \<Longrightarrow> answerable sv (fn, ss) \<Longrightarrow> is_func E fn"
  by (auto simp: serves_def answerable_def dom_def)

theorem exchange_answers:
  assumes "serves E sv" "sv_idle sv st" "answerable sv (fn, ss)"
    and "\<And>b. length b \<le> sz b" "\<And>b. sz b \<le> max (length b) 1"
  shows "\<exists>t. string_call E (\<lambda>s. put_bytes E (sz (utf8_encode s)) (utf8_encode s)) fn ss st
        = (t, Inr (service_answer sv (fn, ss))) \<and> sv_idle sv t"
proof -
  obtain f where f: "sv_table sv fn = Some (length ss, f)"
    using assms(3) by (auto simp: answerable_def)
  have "\<forall>s \<in> set ss. sz (utf8_encode s) \<le> sv_cap sv"
    using assms(3,5) unfolding answerable_def list_all_iff by (metis le_trans snd_conv)
  then show ?thesis
    using exchange_serves [OF assms(1,4,2) f] assms(3) f
    by (simp add: service_answer_def answerable_def)
qed

end
