(* ===== verification/Host_World.thy ===== *)
theory Host_World
  imports Json_Facts Abi_Serve
begin

text \<open>
  What a host process starts from and how it ends: command line, environment, files, standard
  input and the engine as parameters; standard output and exit status as the result. The contract
  every one-shot host has with the process that spawned it is the locale \<open>responder\<close>.
\<close>

record 's world =
  argv :: "jstr list"
  env_wasm :: "jstr option"
  exists_file :: "jstr \<Rightarrow> bool"
  read_file :: "jstr \<Rightarrow> exn + byte list"
  stdin_bytes :: "exn + byte list"
  compile_wasm :: "byte list \<Rightarrow> exn + 's wmodule"
  entropy :: "nat \<Rightarrow> nat \<Rightarrow> byte"
  engine_texts :: texts

text \<open>\<open>Uncaught s e\<close>: the process printed \<open>s\<close> and died of the exception (status 1, stack trace).\<close>

datatype outcome = Exit jstr nat | Uncaught jstr exn

definition arg_at :: "'s world \<Rightarrow> nat \<Rightarrow> jstr option" where
  "arg_at W i = (if i < length (argv W) then Some (argv W ! i) else None)"

text \<open>\<open>!s\<close> for a string that may be undefined\<close>

definition blank :: "jstr option \<Rightarrow> bool" where
  "blank s \<longleftrightarrow> s = None \<or> s = Some []"

text \<open>\<open>fs.readFileSync(p, 'utf8')\<close>\<close>

definition read_text :: "'s world \<Rightarrow> jstr \<Rightarrow> exn + jstr" where
  "read_text W p = map_sum id utf8_decode (read_file W p)"

text \<open>\<open>readFileSync\<close> of the module, then \<open>WebAssembly.instantiate\<close>\<close>

definition instantiate_bytes ::
  "'s world \<Rightarrow> byte list \<Rightarrow> import_obj \<Rightarrow> exn + ('s exports_obj \<times> 's inst)" where
  "instantiate_bytes W b imp =
     (case compile_wasm W b of Inl e \<Rightarrow> Inl e | Inr M \<Rightarrow> instantiate M imp)"

definition load_wasm ::
  "'s world \<Rightarrow> jstr \<Rightarrow> import_obj \<Rightarrow> exn + ('s exports_obj \<times> 's inst)" where
  "load_wasm W p imp =
     (case read_file W p of Inl e \<Rightarrow> Inl e | Inr b \<Rightarrow> instantiate_bytes W b imp)"

text \<open>The module at path \<open>p\<close> instantiates and meets the contract of the service \<open>sv\<close>.\<close>

definition offers :: "'s world \<Rightarrow> jstr \<Rightarrow> import_obj \<Rightarrow> 's service \<Rightarrow> bool" where
  "offers W p imp sv \<longleftrightarrow> exists_file W p \<and> p \<noteq> []
     \<and> (case load_wasm W p imp of Inl e \<Rightarrow> False | Inr (E, st) \<Rightarrow> serves E sv \<and> sv_idle sv st)"

lemma offersE:
  assumes "offers W p imp sv"
  obtains b E st where "exists_file W p" "p \<noteq> []" "read_file W p = Inr b"
    "instantiate_bytes W b imp = Inr (E, st)" "serves E sv" "sv_idle sv st"
  using assms by (auto simp: offers_def load_wasm_def split: sum.splits)

section \<open>Instrumented worlds\<close>

definition traced_module :: "'s wmodule \<Rightarrow> 's logged wmodule" where
  "traced_module M =
     \<lparr>md_imports = md_imports M, md_exports = map (\<lambda>(k, x). (k, traced_export k x)) (md_exports M),
      md_start = (\<lambda>imp. map_sum id (\<lambda>st. logged st []) (md_start M imp))\<rparr>"

definition traced_world :: "'s world \<Rightarrow> 's logged world" where
  "traced_world W =
     \<lparr>argv = argv W, env_wasm = env_wasm W, exists_file = exists_file W, read_file = read_file W,
      stdin_bytes = stdin_bytes W, compile_wasm = (\<lambda>b. map_sum id traced_module (compile_wasm W b)),
      entropy = entropy W, engine_texts = engine_texts W\<rparr>"

lemma traced_world_simps [simp]:
  "argv (traced_world W) = argv W" "env_wasm (traced_world W) = env_wasm W"
  "exists_file (traced_world W) = exists_file W" "read_file (traced_world W) = read_file W"
  "stdin_bytes (traced_world W) = stdin_bytes W" "entropy (traced_world W) = entropy W"
  "engine_texts (traced_world W) = engine_texts W"
  "compile_wasm (traced_world W) b = map_sum id traced_module (compile_wasm W b)"
  "arg_at (traced_world W) i = arg_at W i" "read_text (traced_world W) q = read_text W q"
  by (simp_all add: traced_world_def arg_at_def read_text_def)

lemma memory_binding_traced: "memory_binding (map (\<lambda>(k, x). (k, traced_export k x)) xs) = memory_binding xs"
  by (auto simp: memory_binding_def map_of_map_key split: option.split export.split)

lemma instantiate_traced:
  "instantiate (traced_module M) imp = map_sum id (\<lambda>(E, st). (traced E, logged st [])) (instantiate M imp)"
  by (auto simp: instantiate_def traced_module_def traced_def logged_def memory_binding_traced
      split: sum.split)

lemma instantiate_bytes_traced [simp]:
  "instantiate_bytes (traced_world W) b imp =
     map_sum id (\<lambda>(E, st). (traced E, logged st [])) (instantiate_bytes W b imp)"
  by (auto simp: instantiate_bytes_def instantiate_traced split: sum.split)

lemma load_wasm_traced [simp]:
  "load_wasm (traced_world W) p imp =
     map_sum id (\<lambda>(E, st). (traced E, logged st [])) (load_wasm W p imp)"
  by (auto simp: load_wasm_def split: sum.split)

section \<open>Expressions the hosts share\<close>

text \<open>\<open>v && v.k\<close>\<close>

definition and_prop :: "jv \<Rightarrow> jstr \<Rightarrow> jv option" where
  "and_prop v k =
     (if truthy v then (case get_prop v k of Inl e \<Rightarrow> None | Inr w \<Rightarrow> w) else Some v)"

text \<open>\<open>a || []\<close>\<close>

definition or_empty :: "jv option \<Rightarrow> jv" where
  "or_empty a = (case a of Some v \<Rightarrow> if truthy v then v else JArr [] | None \<Rightarrow> JArr [])"

text \<open>\<open>v.length\<close>: arrays and strings have one, an object may carry a property of that name.\<close>

definition length_prop :: "jv option \<Rightarrow> exn + jv option" where
  "length_prop args =
     (case args of
        None \<Rightarrow> Inl (Fault (Undefined_base (js ''length'')))
      | Some (JArr vs) \<Rightarrow> Inr (Some (JNum (NInt (int (length vs)))))
      | Some (JStr s) \<Rightarrow> Inr (Some (JNum (NInt (int (length s)))))
      | Some v \<Rightarrow> get_prop v (js ''length''))"

text \<open>A truthy value is not null, so the read in \<open>v && v.k\<close> never throws.\<close>

lemma get_prop_truthy: "truthy v \<Longrightarrow> \<exists>w. get_prop v k = Inr w"
  by (cases v) (simp_all add: get_prop_def)

fun str_values :: "jv list \<Rightarrow> jstr list option" where
  "str_values [] = Some []"
| "str_values (JStr s # vs) = map_option (Cons s) (str_values vs)"
| "str_values (_ # vs) = None"

section \<open>Responses\<close>

abbreviation str :: "string \<Rightarrow> jv" where "str s \<equiv> JStr (js s)"

definition ok_field :: "bool \<Rightarrow> jstr \<times> jv" where
  "ok_field b = (js ''ok'', JBool b)"

text \<open>Keys that are not array indices keep their written order.\<close>

definition is_word_key :: "jstr \<Rightarrow> bool" where
  "is_word_key k \<longleftrightarrow> k \<noteq> [] \<and> \<not> is_digit (hd k)"

lemma index_key_word: "is_word_key k \<Longrightarrow> index_key k = None"
  by (cases k) (simp_all add: is_word_key_def index_key_def)

lemma word_key_js [simp]: "is_word_key (js (c # s)) \<longleftrightarrow> \<not> is_digit (of_char c)"
  by (simp add: is_word_key_def js_Cons)

lemma own_order_words:
  assumes "list_all is_word_key ks" "distinct ks"
  shows "own_order ks"
  using assms
proof (induction ks)
  case Nil
  then show ?case by (simp add: own_order_def)
next
  case (Cons k ks)
  then have "key_before k l" if "l \<in> set ks" for l
    using that by (auto simp: key_before_def index_key_word list_all_iff)
  with Cons show ?case by (simp add: own_order_def)
qed

text \<open>
  A response: one JSON object whose \<open>ok\<close> is a boolean, followed by white space only, and the exit
  status that goes with \<open>ok\<close>.
\<close>

definition is_response :: "jstr \<Rightarrow> (bool \<Rightarrow> nat) \<Rightarrow> outcome \<Rightarrow> bool" where
  "is_response ws status out \<longleftrightarrow>
     (\<exists>kvs b. out = Exit (stringify (JObj kvs) @ ws) (status b)
        \<and> plain (JObj kvs) \<and> map_of kvs (js ''ok'') = Some (JBool b))"

definition response_fields :: "(jstr \<times> jv) list \<Rightarrow> bool" where
  "response_fields kvs \<longleftrightarrow> list_all (\<lambda>(k, v). is_word_key k \<and> k \<noteq> js ''ok'' \<and> plain v) kvs
     \<and> distinct (map fst kvs)"

lemma responseI:
  assumes "response_fields kvs" "code = status b"
  shows "is_response ws status (Exit (stringify (JObj (ok_field b # kvs)) @ ws) code)"
proof -
  have "own_order (map fst (ok_field b # kvs))"
    using assms(1)
    by (intro own_order_words) (auto simp: response_fields_def ok_field_def list_all_iff is_digit_def)
  then have "plain (JObj (ok_field b # kvs))"
    using assms(1) by (auto simp: response_fields_def ok_field_def list_all_iff)
  moreover have "map_of (ok_field b # kvs) (js ''ok'') = Some (JBool b)"
    by (simp add: ok_field_def)
  ultimately show ?thesis
    using assms(2) unfolding is_response_def by blast
qed

lemma responseI_bare:
  assumes "response_fields kvs" "code = status b"
  shows "is_response [] status (Exit (stringify (JObj (ok_field b # kvs))) code)"
  using responseI [where ws = "[]" and b = b and status = status, OF assms] by simp

lemma response_fields_simps [simp]:
  "response_fields []"
  "response_fields ((k, v) # kvs) \<longleftrightarrow>
     is_word_key k \<and> k \<noteq> js ''ok'' \<and> plain v \<and> k \<notin> fst ` set kvs \<and> response_fields kvs"
  by (auto simp: response_fields_def)

lemma plain_strings [simp]: "plain (JArr (map JStr ss))"
  by (simp add: list_all_iff)

text \<open>The contract of a host with the process that spawned it.\<close>

locale responder =
  fixes run :: "'s world \<Rightarrow> outcome"
    and accepts :: "'s world \<Rightarrow> bool"
    and tail_ws :: jstr
    and status :: "bool \<Rightarrow> nat"
  assumes responds: "accepts W \<Longrightarrow> is_response tail_ws status (run W)"
    and tail_white: "list_all is_ws tail_ws"
begin

lemma tail_delimited: "delimited tail_ws"
  using tail_white by (cases tail_ws) (auto simp: delimited_def is_ws_def)

lemma tail_skipped: "skip_ws tail_ws = []"
  using tail_white by (simp add: skip_ws_def list_all_iff)

text \<open>The caller's side: decoding what the process printed gives the response object.\<close>

lemma caller_reads:
  assumes "accepts W"
  shows "\<exists>line kvs b. run W = Exit (line @ tail_ws) (status b) \<and> printable line
      \<and> json_parse (line @ tail_ws) = Inr (JObj kvs) \<and> map_of kvs (js ''ok'') = Some (JBool b)"
proof -
  obtain kvs b where r: "run W = Exit (stringify (JObj kvs) @ tail_ws) (status b)"
    "plain (JObj kvs)" "map_of kvs (js ''ok'') = Some (JBool b)"
    using responds [OF assms] unfolding is_response_def by blast
  let ?s = "stringify (JObj kvs) @ tail_ws"
  have "parse_value (2 * length ?s + 2) ?s = Some (JObj kvs, tail_ws)"
    by (rule readsD [OF plain_trip [OF r(2)] tail_delimited]) simp
  then have "json_parse ?s = Inr (JObj kvs)"
    unfolding json_parse_def by (simp only: option.case prod.case tail_skipped) simp
  with r stringify_printable show ?thesis by blast
qed

lemma caller_decodes:
  assumes "accepts W"
  shows "\<exists>out kvs b. run W = Exit out (status b) \<and> json_parse out = Inr (JObj kvs)
      \<and> map_of kvs (js ''ok'') = Some (JBool b)"
  using caller_reads [OF assms] by blast

lemma never_uncaught: "accepts W \<Longrightarrow> run W \<noteq> Uncaught s e"
  using responds unfolding is_response_def by fastforce

end

section \<open>Requests\<close>

text \<open>The entry \<open>{"fn": ..., "args": [...]}\<close> of a batch of calls.\<close>

definition call_entry :: "jstr \<times> jstr list \<Rightarrow> jv" where
  "call_entry c = JObj [(js ''fn'', JStr (fst c)), (js ''args'', JArr (map JStr (snd c)))]"

lemma str_values_strings [simp]: "str_values (map JStr ss) = Some ss"
  by (induction ss) simp_all

lemma get_prop_call_entry [simp]:
  "get_prop (call_entry c) (js ''fn'') = Inr (Some (JStr (fst c)))"
  "get_prop (call_entry c) (js ''args'') = Inr (Some (JArr (map JStr (snd c))))"
  "truthy (call_entry c)"
  by (simp_all add: call_entry_def get_prop_def)

lemma and_prop_call_entry [simp]:
  "and_prop (call_entry c) (js ''fn'') = Some (JStr (fst c))"
  "and_prop (call_entry c) (js ''args'') = Some (JArr (map JStr (snd c)))"
  by (simp_all add: and_prop_def)

lemma or_empty_array [simp]: "or_empty (Some (JArr vs)) = JArr vs"
  by (simp add: or_empty_def)

lemma plain_call_entry [simp]: "plain (call_entry c)"
proof -
  have "own_order [js ''fn'', js ''args'']" by (rule own_order_words) (simp_all add: is_digit_def)
  then show ?thesis by (simp add: call_entry_def list_all_iff)
qed

end
