(* ===== verification/Abi_Demo.thy ===== *)
theory Abi_Demo
  imports Abi_Serve
begin

text \<open>
  A module for the witnesses: memory of 32 bytes with the return area at 16, an allocator that grows
  the memory and a release that shrinks it, one export that echoes its argument, one without
  parameters and one that traps. It meets the service contract.
\<close>

definition le_bytes :: "nat \<Rightarrow> byte list" where
  "le_bytes n = [of_nat n, of_nat (n div 0x100), of_nat (n div 0x10000), of_nat (n div 0x1000000)]"

type_synonym demo_fn = "import_obj \<Rightarrow> i32 list \<Rightarrow> (unit inst, i32) comp"

definition set_mem :: "byte list \<Rightarrow> unit inst \<Rightarrow> unit inst" where
  "set_mem m st = st\<lparr>in_lin := (in_lin st)\<lparr>lm_bytes := m\<rparr>\<rparr>"

definition demo_sp :: demo_fn where
  "demo_sp imp args st = (st, Inr 16)"

definition demo_malloc :: demo_fn where
  "demo_malloc imp args st =
     (set_mem (mem_of st @ replicate (unat (args ! 0)) 0) st, Inr (of_nat (length (mem_of st))))"

definition demo_free :: demo_fn where
  "demo_free imp args st = (set_mem (take 32 (mem_of st)) st, Inr 0)"

definition return_area :: "nat \<Rightarrow> nat \<Rightarrow> unit inst \<Rightarrow> unit inst" where
  "return_area p l st = mem_update 16 (le_bytes p @ le_bytes l) st"

definition demo_echo :: demo_fn where
  "demo_echo imp args st = (return_area (unat (args ! 1)) (unat (args ! 2)) st, Inr 0)"

definition demo_version :: demo_fn where
  "demo_version imp args st =
     (return_area (length (mem_of st)) 1 (set_mem (mem_of st @ [49]) st), Inr 0)"

definition demo_trap :: demo_fn where
  "demo_trap imp args st = (st, Inl (Fault (Wasm_error (js ''unreachable''))))"

definition demo_exports :: "(jstr \<times> unit export) list" where
  "demo_exports =
     [(js ''memory'', Memory), (js ''graphlaw_version'', Func demo_version),
      (js ''graph_hash'', Func demo_echo), (js ''blake3_hex'', Func demo_trap),
      (sp_name, Func demo_sp), (malloc_name, Func demo_malloc), (free_name, Func demo_free)]"

definition demo_state :: "unit inst" where
  "demo_state = \<lparr>in_lin = \<lparr>lm_bytes = replicate 32 0, lm_bound = Unassigned, lm_rng = 0\<rparr>, in_priv = ()\<rparr>"

definition demo_module :: "unit wmodule" where
  "demo_module = \<lparr>md_imports = [], md_exports = demo_exports, md_start = (\<lambda>imp. Inr demo_state)\<rparr>"

definition demo_E :: "import_obj \<Rightarrow> unit exports_obj" where
  "demo_E imp = \<lparr>ex_table = demo_exports, ex_imports = imp\<rparr>"

definition demo_ready :: "unit inst" where
  "demo_ready = demo_state\<lparr>in_lin := (in_lin demo_state)\<lparr>lm_bound := Bound\<rparr>\<rparr>"

lemma demo_instantiate: "instantiate demo_module imp = Inr (demo_E imp, demo_ready)"
  by (simp add: instantiate_def demo_module_def demo_E_def demo_ready_def memory_binding_def demo_exports_def)

lemma demo_get [simp]:
  "ex_get (demo_E imp) (js ''memory'') = Some Memory"
  "ex_get (demo_E imp) (js ''graphlaw_version'') = Some (Func demo_version)"
  "ex_get (demo_E imp) (js ''graph_hash'') = Some (Func demo_echo)"
  "ex_get (demo_E imp) (js ''blake3_hex'') = Some (Func demo_trap)"
  "ex_get (demo_E imp) sp_name = Some (Func demo_sp)"
  "ex_get (demo_E imp) malloc_name = Some (Func demo_malloc)"
  "ex_get (demo_E imp) free_name = Some (Func demo_free)"
  by (simp_all add: ex_get_def demo_E_def demo_exports_def)

lemma demo_call [simp]:
  "call_export (demo_E imp) (js ''graphlaw_version'') args st = demo_version imp args st"
  "call_export (demo_E imp) (js ''graph_hash'') args st = demo_echo imp args st"
  "call_export (demo_E imp) (js ''blake3_hex'') args st = demo_trap imp args st"
  "call_export (demo_E imp) sp_name args st = demo_sp imp args st"
  "call_export (demo_E imp) malloc_name args st = demo_malloc imp args st"
  "call_export (demo_E imp) free_name args st = demo_free imp args st"
  by (simp_all add: call_export_def) (simp_all add: demo_E_def)

section \<open>The contract\<close>

definition demo_table :: "jstr \<Rightarrow> (nat \<times> (jstr list \<Rightarrow> jstr)) option" where
  "demo_table k =
     (if k = js ''graphlaw_version'' then Some (0, \<lambda>_. js ''1'')
      else if k = js ''graph_hash'' then Some (1, hd) else None)"

definition demo_busy :: "unit inst \<Rightarrow> i32 \<Rightarrow> (i32 \<times> jstr) list \<Rightarrow> bool" where
  "demo_busy st rp bs \<longleftrightarrow> rp = 16
     \<and> (bs = [] \<and> length (mem_of st) = 32
        \<or> (\<exists>s. bs = [(32, s)] \<and> length (utf8_encode s) \<le> 1000
             \<and> 32 + length (utf8_encode s) \<le> length (mem_of st)
             \<and> take (length (utf8_encode s)) (drop 32 (mem_of st)) = utf8_encode s))"

definition demo_service :: "unit service" where
  "demo_service =
     \<lparr>sv_table = demo_table, sv_cap = 1000, sv_args = 1,
      sv_idle = (\<lambda>st. length (mem_of st) = 32), sv_busy = demo_busy,
      sv_done = (\<lambda>st r0 r1. 32 \<le> length (mem_of st))\<rparr>"

lemma mem_set_mem [simp]: "mem_of (set_mem m st) = m"
  by (simp add: set_mem_def)

lemma mem_of_update [simp]: "mem_of (mem_update p b st) = put_at (mem_of st) p b"
  by (simp add: mem_update_def)

lemma length_put_at: "p + length ys \<le> length xs \<Longrightarrow> length (put_at xs p ys) = length xs"
  by (simp add: put_at_def)

lemma put_at_read:
  "p + length ys \<le> length xs \<Longrightarrow> take (length ys) (drop p (put_at xs p ys)) = ys"
  by (simp add: put_at_def)

lemma put_at_above:
  "p + length ys \<le> q \<Longrightarrow> q \<le> length xs \<Longrightarrow> drop q (put_at xs p ys) = drop q xs"
  by (auto simp: put_at_def min_def simp flip: length_0_conv)

lemma length_le_bytes [simp]: "length (le_bytes n) = 4"
  by (simp add: le_bytes_def)

lemma le32_le_bytes:
  assumes "n < 0x10000"
  shows "le32 (le_bytes n) = of_nat n"
proof -
  have "unat (of_nat (n div 0x100) :: byte) = n div 0x100"
    by (rule unat_of_nat_byte) (use assms in \<open>simp add: less_mult_imp_div_less\<close>)
  moreover have "unat (of_nat n :: byte) = n mod 0x100"
    by (simp add: unsigned_of_nat take_bit_eq_mod)
  moreover have "n mod 0x100 + 0x100 * (n div 0x100) = n" by simp
  ultimately show ?thesis
    using assms by (simp add: le32_def le_bytes_def)
qed

lemma sint_small: "n < 0x10000 \<Longrightarrow> sint (of_nat n :: i32) = int n"
  by (simp add: signed_of_nat signed_take_bit_int_eq_self)

lemma return_area_holds:
  assumes "32 \<le> length (mem_of st)" "p + length b \<le> length (mem_of st)" "32 \<le> p"
    and "take (length b) (drop p (mem_of st)) = b" "p < 0x10000" "length b < 0x10000"
  shows "holds_result (mem_of (return_area p (length b) st)) 16 (of_nat p) (of_nat (length b)) b"
proof -
  let ?w = "le_bytes p @ le_bytes (length b)"
  let ?m = "put_at (mem_of st) 16 ?w"
  have w: "take 8 (drop 16 ?m) = ?w"
    using put_at_read [of 16 ?w "mem_of st"] assms(1) by simp
  have "take 4 (drop 16 ?m) = take 4 (take 8 (drop 16 ?m))" by (simp add: min_def)
  then have lo: "take 4 (drop 16 ?m) = le_bytes p" unfolding w by simp
  have "take 4 (drop 20 ?m) = drop 4 (take 8 (drop 16 ?m))" by (simp add: drop_take)
  then have hi: "take 4 (drop 20 ?m) = le_bytes (length b)" unfolding w by simp
  have "drop p ?m = drop p (mem_of st)"
    by (rule put_at_above) (use assms in auto)
  then show ?thesis
    using assms lo hi
    by (simp add: holds_result_def return_area_def length_put_at le32_le_bytes sint_small)
qed

lemma length_return_area [simp]: "32 \<le> length (mem_of st) \<Longrightarrow>
    length (mem_of (return_area p l st)) = length (mem_of st)"
  by (simp add: return_area_def length_put_at)

lemma demo_allocates: "allocates (demo_E imp) demo_service"
  unfolding allocates_def
proof (intro allI impI, elim conjE)
  fix st rp bs n
  assume "sv_busy demo_service st rp bs" "length bs < sv_args demo_service" "n \<le> sv_cap demo_service"
  then have len: "length (mem_of st) = 32" and rp: "rp = 16" and bs: "bs = []" and n: "n \<le> 1000"
    by (auto simp: demo_service_def demo_busy_def)
  have "unat (of_nat n :: i32) = n"
    using n by (simp add: unsigned_of_nat take_bit_nat_eq_self)
  then have "call_export (demo_E imp) malloc_name [of_nat n, 1] st
      = (set_mem (mem_of st @ replicate n 0) st, Inr 32)"
    by (simp add: demo_malloc_def len)
  moreover have "demo_busy (mem_update 32 (utf8_encode s) (set_mem (mem_of st @ replicate n 0) st)) 16
      [(32, s)]" if "length (utf8_encode s) \<le> n" for s
    using that n len put_at_read [of 32 "utf8_encode s" "mem_of st @ replicate n 0"]
    by (simp add: demo_busy_def length_put_at)
  ultimately show "\<exists>t p. call_export (demo_E imp) malloc_name [of_nat n, 1] st = (t, Inr p)
        \<and> 0 \<le> sint p \<and> nat (sint p) + n \<le> length (mem_of t)
        \<and> (\<forall>s. length (utf8_encode s) \<le> n \<longrightarrow>
             sv_busy demo_service (mem_update (nat (sint p)) (utf8_encode s) t) rp (bs @ [(p, s)]))"
    using len rp bs
    by (intro exI [of _ "set_mem (mem_of st @ replicate n 0) st"] exI [of _ 32]) (simp add: demo_service_def)
qed

lemma demo_answers: "answers_call (demo_E imp) demo_service"
  unfolding answers_call_def
proof (intro allI impI, elim conjE)
  fix st rp and bs :: "(i32 \<times> jstr) list" and fn f
  assume busy: "sv_busy demo_service st rp bs" and f: "sv_table demo_service fn = Some (length bs, f)"
  have rp: "rp = 16" and len: "32 \<le> length (mem_of st)"
    using busy by (auto simp: demo_service_def demo_busy_def)
  consider (version) "fn = js ''graphlaw_version''" "bs = []" "f = (\<lambda>_. js ''1'')" "length (mem_of st) = 32"
    | (echo) s where "fn = js ''graph_hash''" "bs = [(32, s)]" "f = hd"
      "length (utf8_encode s) \<le> 1000" "32 + length (utf8_encode s) \<le> length (mem_of st)"
      "take (length (utf8_encode s)) (drop 32 (mem_of st)) = utf8_encode s"
    using busy f by (auto simp: demo_service_def demo_busy_def demo_table_def split: if_splits)
  then show "\<exists>t r r0 r1. call_export (demo_E imp) fn
          (rp # arg_words (map fst bs) (map (\<lambda>b. utf8_encode (snd b)) bs)) st = (t, Inr r)
        \<and> holds_result (mem_of t) rp r0 r1 (utf8_encode (f (map snd bs)))
        \<and> sv_done demo_service t r0 r1"
  proof cases
    case version
    have one: "utf8_encode (js ''1'') = [49]"
      by (simp add: js_def utf8_encode_def encode_cps_def encode_cp_def to_scalar_def is_surrogate_def)
    have "holds_result (mem_of (return_area 32 1 (set_mem (mem_of st @ [49]) st))) 16 32 1 [49]"
      using return_area_holds [of "set_mem (mem_of st @ [49]) st" 32 "[49]"] version(4) by simp
    then show ?thesis
      unfolding version(1-3) using version(4) rp
      by (simp add: demo_version_def one demo_service_def) blast
  next
    case (echo s)
    have "unat (of_nat (length (utf8_encode s)) :: i32) = length (utf8_encode s)"
      using echo(4) by (simp add: unsigned_of_nat take_bit_nat_eq_self)
    moreover have "holds_result (mem_of (return_area 32 (length (utf8_encode s)) st)) 16 32
        (of_nat (length (utf8_encode s))) (utf8_encode s)"
      using return_area_holds [of st 32 "utf8_encode s"] echo(4-6) len by simp
    ultimately show ?thesis
      unfolding echo(1-3) using rp len
      by (simp add: demo_echo_def arg_words_def demo_service_def) blast
  qed
qed

theorem demo_serves: "serves (demo_E imp) demo_service"
proof -
  have "reserves (demo_E imp) demo_service"
    by (simp add: reserves_def demo_sp_def demo_service_def demo_busy_def)
  moreover have "releases (demo_E imp) demo_service"
    by (simp add: releases_def demo_sp_def demo_free_def demo_service_def)
  moreover have "\<forall>fn \<in> dom (sv_table demo_service). is_func (demo_E imp) fn"
    by (auto simp: demo_service_def demo_table_def is_func_def split: if_splits)
  ultimately show ?thesis
    using demo_allocates demo_answers by (simp add: serves_def)
qed

lemma demo_idle [simp]: "sv_idle demo_service demo_ready"
  by (simp add: demo_service_def demo_ready_def demo_state_def)

end
