(* ===== verification/Demo_World.thy ===== *)
theory Demo_World
  imports Host_World Abi_Demo
begin

text \<open>
  The world of the witnesses: given files, the demonstration module under the bytes \<open>demo_wasm\<close>, and
  an engine whose messages are constant.
\<close>

definition demo_wasm :: "byte list" where
  "demo_wasm = [0, 97, 115, 109]"

definition demo_texts :: texts where
  "demo_texts = \<lparr>tx_message = (\<lambda>_. js ''engine''), tx_string = (\<lambda>_. js ''Error: engine'')\<rparr>"

definition demo_world ::
  "jstr list \<Rightarrow> jstr option \<Rightarrow> (jstr \<times> byte list) list \<Rightarrow> byte list \<Rightarrow> unit world" where
  "demo_world args env files input =
     \<lparr>argv = args, env_wasm = env, exists_file = (\<lambda>p. map_of files p \<noteq> None),
      read_file = (\<lambda>p. case map_of files p of Some b \<Rightarrow> Inr b | None \<Rightarrow> Inl (Fault (Io_error p))),
      stdin_bytes = Inr input,
      compile_wasm = (\<lambda>b. if b = demo_wasm then Inr demo_module else Inl (Fault (Wasm_error (js ''magic'')))),
      entropy = (\<lambda>_ _. 7), engine_texts = demo_texts\<rparr>"

lemma demo_world_simps [simp]:
  "argv (demo_world args env files input) = args"
  "env_wasm (demo_world args env files input) = env"
  "exists_file (demo_world args env files input) p = (map_of files p \<noteq> None)"
  "read_file (demo_world args env files input) p =
     (case map_of files p of Some b \<Rightarrow> Inr b | None \<Rightarrow> Inl (Fault (Io_error p)))"
  "stdin_bytes (demo_world args env files input) = Inr input"
  "compile_wasm (demo_world args env files input) demo_wasm = Inr demo_module"
  "engine_texts (demo_world args env files input) = demo_texts"
  by (simp_all add: demo_world_def)

lemma demo_offers:
  "map_of files p = Some demo_wasm \<Longrightarrow> p \<noteq> [] \<Longrightarrow> offers (demo_world args env files input) p imp demo_service"
  by (simp add: offers_def load_wasm_def instantiate_bytes_def demo_instantiate demo_serves)

lemma demo_read:
  "map_of files p = Some (utf8_encode (js s)) \<Longrightarrow> ascii (js s) \<Longrightarrow>
     read_text (demo_world args env files input) p = Inr (js s)"
  by (simp add: read_text_def utf8_roundtrip well_formed_asciiI)

lemma demo_answerable:
  "ascii (js s) \<Longrightarrow> length s \<le> 1000 \<Longrightarrow> answerable demo_service (js ''graph_hash'', [js s])"
  "answerable demo_service (js ''graphlaw_version'', [])"
  by (simp_all add: answerable_def demo_service_def demo_table_def utf8_encode_ascii)

lemma demo_answer:
  "ascii (js s) \<Longrightarrow> service_answer demo_service (js ''graph_hash'', [js s]) = js s"
  "service_answer demo_service (js ''graphlaw_version'', []) = js ''1''"
  by (simp_all add: service_answer_def demo_service_def demo_table_def to_well_formed_id well_formed_asciiI
      drop_bom_ascii ascii_js_simp)

end
