(* ===== verification/Host_Probe.thy ===== *)
theory Host_Probe
  imports Demo_World
begin

text \<open>
  \<open>priv/graphlaw/graphlaw_host_probe.mjs\<close>: one operation named on the command line, its arguments
  read from files, one JSON object on standard output, exit status 0 in every case.
\<close>

section \<open>The process\<close>

definition probe_imports :: import_obj where
  "probe_imports = two_imports fill_deterministic"

definition probe_emit :: "(jstr \<times> jv) list \<Rightarrow> outcome" where
  "probe_emit kvs = Exit (stringify (JObj kvs)) 0"

definition probe_putStr :: "'s exports_obj \<Rightarrow> jstr \<Rightarrow> ('s inst, i32 \<times> i32) comp" where
  "probe_putStr E s = (let b = utf8_encode s in put_bytes E (length b) b)"

definition probe_call :: "'s exports_obj \<Rightarrow> jstr \<Rightarrow> jstr list \<Rightarrow> ('s inst, jstr) comp" where
  "probe_call E fn strs =
     (if \<not> is_func E fn then throwC (Thrown (js ''no_such_export: '' @ fn))
      else string_call E (probe_putStr E) fn strs)"

definition probe_readArg :: "'s world \<Rightarrow> jstr list \<Rightarrow> nat \<Rightarrow> exn + jstr" where
  "probe_readArg W rest i =
     (if length rest \<le> i then Inl (Thrown (js ''missing_arg_'' @ nat_text i))
      else read_text W (rest ! i))"

text \<open>Arguments are read left to right before the call; the first failure is thrown.\<close>

fun probe_readArgs :: "'s world \<Rightarrow> jstr list \<Rightarrow> nat list \<Rightarrow> ('s inst, jstr list) comp" where
  "probe_readArgs W rest [] = returnC []"
| "probe_readArgs W rest (i # is') =
     bindC (liftC (probe_readArg W rest i)) (\<lambda>s.
     bindC (probe_readArgs W rest is') (\<lambda>ss. returnC (s # ss)))"

definition probe_run ::
  "'s world \<Rightarrow> 's exports_obj \<Rightarrow> jstr list \<Rightarrow> string \<Rightarrow> nat \<Rightarrow> ('s inst, jstr) comp" where
  "probe_run W E rest fn n =
     bindC (probe_readArgs W rest [0..<n]) (\<lambda>ss. probe_call E (js fn) ss)"

text \<open>The \<open>switch\<close>; None is its default branch.\<close>

definition probe_switch ::
  "'s world \<Rightarrow> 's exports_obj \<Rightarrow> jstr \<Rightarrow> jstr list \<Rightarrow> ('s inst, jstr) comp option" where
  "probe_switch W E op rest =
     (if op = js ''version'' then Some (probe_run W E rest ''graphlaw_version'' 0)
      else if op = js ''graph_hash'' then Some (probe_run W E rest ''graph_hash'' 1)
      else if op = js ''blake3_hex_file'' then Some (probe_run W E rest ''blake3_hex'' 1)
      else if op = js ''validate_all'' then Some (probe_run W E rest ''validate_all'' 5)
      else if op = js ''run_hooks'' then Some (probe_run W E rest ''run_hooks'' 2)
      else None)"

definition probe_error :: "jv \<Rightarrow> jstr \<Rightarrow> outcome" where
  "probe_error op msg = probe_emit [ok_field False, (js ''op'', op), (js ''error'', JStr msg)]"

definition probe_dispatch :: "'s world \<Rightarrow> 's exports_obj \<Rightarrow> 's inst \<Rightarrow> jstr \<Rightarrow> outcome" where
  "probe_dispatch W E st op =
     (case probe_switch W E op (drop 3 (argv W)) of
        None \<Rightarrow> probe_error (JStr op) (js ''unknown_op: '' @ op)
      | Some m \<Rightarrow>
          (case m st of
             (_, Inr result) \<Rightarrow>
               probe_emit [ok_field True, (js ''op'', JStr op), (js ''result'', JStr result)]
           | (_, Inl e) \<Rightarrow> probe_error (JStr op) (error_text (engine_texts W) e)))"

definition probe_main :: "'s world \<Rightarrow> outcome" where
  "probe_main W =
     (if blank (arg_at W 2) then probe_error JNull (js ''missing_op'')
      else let op = the (arg_at W 2) in
      if blank (env_wasm W) then probe_error (JStr op) (js ''missing_GRAPHLAW_WASM_env'')
      else let wasmPath = the (env_wasm W) in
      if \<not> exists_file W wasmPath
      then probe_error (JStr op) (js ''wasm_not_found: '' @ wasmPath)
      else case load_wasm W wasmPath probe_imports of
        Inl e \<Rightarrow>
          probe_error (JStr op) (js ''instantiate_failed: '' @ message_of (engine_texts W) e)
      | Inr (E, st) \<Rightarrow> probe_dispatch W E st op)"

section \<open>Contract\<close>

lemma probe_error_response [intro]: "plain op \<Longrightarrow> is_response [] (\<lambda>_. 0) (probe_error op msg)"
  unfolding probe_error_def probe_emit_def by (rule responseI_bare) (simp_all add: is_digit_def)

lemma probe_ok_response [intro]:
  "is_response [] (\<lambda>_. 0) (probe_emit [ok_field True, (js ''op'', JStr op), (js ''result'', JStr r)])"
  unfolding probe_emit_def by (rule responseI_bare) (simp_all add: is_digit_def)

lemma probe_dispatch_response [intro]: "is_response [] (\<lambda>_. 0) (probe_dispatch W E st op)"
  unfolding probe_dispatch_def by (auto split: option.split prod.split sum.split)

interpretation probe: responder probe_main "\<lambda>_. True" "[]" "\<lambda>_. 0"
  by unfold_locales (auto simp: probe_main_def Let_def split: sum.split)

section \<open>Answers\<close>

text \<open>Which export an operation names, and how many argument files it takes.\<close>

definition probe_table :: "jstr \<Rightarrow> (string \<times> nat) option" where
  "probe_table = map_of
     [(js ''version'', ''graphlaw_version'', 0), (js ''graph_hash'', ''graph_hash'', 1),
      (js ''blake3_hex_file'', ''blake3_hex'', 1), (js ''validate_all'', ''validate_all'', 5),
      (js ''run_hooks'', ''run_hooks'', 2)]"

lemma probe_switch_table:
  "probe_switch W E op rest = map_option (\<lambda>(fn, n). probe_run W E rest fn n) (probe_table op)"
  by (simp add: probe_switch_def probe_table_def)

lemma probe_putStr_eq: "probe_putStr E = (\<lambda>s. put_bytes E (length (utf8_encode s)) (utf8_encode s))"
  by (simp add: fun_eq_iff probe_putStr_def Let_def)

lemma probe_call_answers:
  assumes "serves E sv" "sv_idle sv st" "answerable sv (fn, ss)"
  shows "\<exists>t. probe_call E fn ss st = (t, Inr (service_answer sv (fn, ss)))"
  using exchange_answers [OF assms, of length] answerable_func [OF assms(1,3)]
  by (auto simp: probe_call_def probe_putStr_eq)

lemma probe_readArgs_ok:
  assumes "\<forall>i \<in> set is'. i < length rest" "map (\<lambda>i. read_text W (rest ! i)) is' = map Inr ss"
  shows "probe_readArgs W rest is' st = (st, Inr ss)"
  using assms
proof (induction is' arbitrary: ss)
  case (Cons i is')
  then obtain s ss' where "ss = s # ss'" "read_text W (rest ! i) = Inr s"
    "map (\<lambda>i. read_text W (rest ! i)) is' = map Inr ss'"
    by auto
  then show ?case using Cons by (simp add: probe_readArg_def bindC_def)
qed simp

text \<open>
  C11: an operation whose argument files can be read prints the answer of the wasm export it names, on
  exactly the texts of those files in command line order, as \<open>{"ok":true,"op":...,"result":...}\<close>.
\<close>

theorem probe_answers:
  assumes "argv W = node # script # op # files" "env_wasm W = Some path"
    and "offers W path probe_imports sv"
    and "op \<noteq> []" "probe_table op = Some (fn, length ss)" "answerable sv (js fn, ss)"
    and "length ss \<le> length files" "map (read_text W) (take (length ss) files) = map Inr ss"
  shows "probe_main W = probe_emit
      [ok_field True, (js ''op'', JStr op), (js ''result'', JStr (service_answer sv (js fn, ss)))]"
proof -
  obtain b E st where wasm: "exists_file W path" "path \<noteq> []" "read_file W path = Inr b"
    "instantiate_bytes W b probe_imports = Inr (E, st)" "serves E sv" "sv_idle sv st"
    using assms(3) by (rule offersE)
  have "map (\<lambda>i. read_text W (files ! i)) [0..<length ss] = map Inr ss"
    using map_upt_take [OF assms(7), of "read_text W"] assms(8) by simp
  then have "probe_readArgs W files [0..<length ss] st = (st, Inr ss)"
    using assms(7) by (intro probe_readArgs_ok) auto
  moreover obtain t where "probe_call E (js fn) ss st = (t, Inr (service_answer sv (js fn, ss)))"
    using probe_call_answers [OF wasm(5,6) assms(6)] by blast
  ultimately show ?thesis
    using assms(1,2,4,5) wasm
    by (simp add: probe_main_def arg_at_def blank_def load_wasm_def probe_dispatch_def probe_switch_table
        probe_run_def bindC_def)
qed

theorem probe_answers_witness:
  "probe_main (demo_world [js ''node'', js ''probe'', js ''graph_hash'', js ''a''] (Some (js ''w''))
       [(js ''w'', demo_wasm), (js ''a'', utf8_encode (js ''ttl''))] [])
   = probe_emit [ok_field True, (js ''op'', str ''graph_hash''), (js ''result'', str ''ttl'')]"
  by (subst probe_answers [where path = "js ''w''" and sv = demo_service and fn = "''graph_hash''"
        and ss = "[js ''ttl'']" and files = "[js ''a'']"])
     (simp_all add: demo_offers demo_read demo_answerable demo_answer probe_table_def)

text \<open>
  When an argument of the operation is missing on the command line or cannot be read, no function
  of the module is called: the instance is as it was and the process reports the first such argument.
\<close>

theorem probe_missing_argument:
  assumes "i < n" "probe_readArg W rest i = Inl e" "\<forall>j < i. \<exists>s. probe_readArg W rest j = Inr s"
  shows "probe_run W E rest fn n st = (st, Inl e)"
proof -
  have "probe_readArgs W rest is' st = (st, Inl e)"
    if "is' = js @ i # ks" "\<forall>j \<in> set js. \<exists>s. probe_readArg W rest j = Inr s" for is' js ks
    using that
  proof (induction js arbitrary: is')
    case (Cons j js)
    then obtain s where "probe_readArg W rest j = Inr s" by auto
    then show ?case using Cons by (simp add: bindC_def)
  qed (simp add: assms(2) bindC_def)
  moreover have "[0..<n] = [0..<i] @ i # [Suc i..<n]"
    using assms(1) by (rule upt_split)
  ultimately show ?thesis
    using assms(3) by (simp add: probe_run_def bindC_def)
qed

theorem probe_missing_argument_witness:
  "probe_run (demo_world [] None [(js ''a'', [104])] []) (demo_E probe_imports) [js ''a''] ''run_hooks'' 2 demo_ready
   = (demo_ready, Inl (Thrown (js ''missing_arg_1'')))"
proof -
  have "probe_readArg (demo_world [] None [(js ''a'', [104])] []) [js ''a''] 1 = Inl (Thrown (js ''missing_arg_1''))"
    by (simp add: probe_readArg_def nat_text_def dec_digits.simps js_def)
  moreover have "\<exists>s. probe_readArg (demo_world [] None [(js ''a'', [104])] []) [js ''a''] 0 = Inr s"
    by (simp add: probe_readArg_def read_text_def)
  ultimately show ?thesis by (intro probe_missing_argument [of 1]) auto
qed


text \<open>
  C17: a call that returns follows the wasm-bindgen protocol to the letter. It reserves a return area of 16 bytes
  at the address the stack-pointer function returns; it asks the allocator once per argument for exactly
  the bytes of its UTF-8 text and writes them where the allocator said; it calls the export with the
  return area and the (address, length) pairs in argument order; it reads the answer's address and length
  from the return area, takes the text of those bytes, gives the return area back and frees exactly that
  address and length; and nothing else of the module is called.
\<close>

theorem probe_protocol:
  assumes "probe_call (traced E) fn ss (logged st []) = (t, Inr out)"
  shows "\<exists>rp ps r0 r1. exchanged length E fn (map utf8_encode ss) st rp ps r0 r1 (erase t) out
      \<and> length ps = length ss
      \<and> log_of t = exchange_log length fn rp ps (map utf8_encode ss) r0 r1
      \<and> probe_call E fn ss st = (erase t, Inr out)"
proof -
  have f: "is_func E fn"
    using assms by (auto simp: probe_call_def split: if_splits)
  have call: "string_call (traced E) (\<lambda>s. put_bytes (traced E) (length (utf8_encode s)) (utf8_encode s)) fn ss (logged st []) = (t, Inr out)"
    using assms f by (simp add: probe_call_def probe_putStr_eq)
  have "tracks (insert fn abi_names)
      (string_call (traced E) (\<lambda>s. put_bytes (traced E) (length (utf8_encode s)) (utf8_encode s)) fn ss)
      (string_call E (\<lambda>s. put_bytes E (length (utf8_encode s)) (utf8_encode s)) fn ss)"
    by (intro tracks_intros) auto
  from tracks_fresh(1,2) [OF this, of st]
  have "string_call E (\<lambda>s. put_bytes E (length (utf8_encode s)) (utf8_encode s)) fn ss st = (erase t, Inr out)"
    unfolding call by (simp add: prod_eq_iff)
  then have "probe_call E fn ss st = (erase t, Inr out)"
    using f by (simp add: probe_call_def probe_putStr_eq)
  then show ?thesis
    using exchange_protocol [OF call] by auto
qed

theorem probe_protocol_witness:
  "\<exists>t out rp ps r0 r1. probe_call (traced (demo_E probe_imports)) (js ''graph_hash'') [js ''ttl''] (logged demo_ready []) = (t, Inr out)
      \<and> exchanged length (demo_E probe_imports) (js ''graph_hash'') (map utf8_encode [js ''ttl'']) demo_ready
          rp ps r0 r1 (erase t) out
      \<and> log_of t = exchange_log length (js ''graph_hash'') rp ps (map utf8_encode [js ''ttl'']) r0 r1"
proof -
  obtain t r where run: "probe_call (traced (demo_E probe_imports)) (js ''graph_hash'') [js ''ttl''] (logged demo_ready []) = (t, r)"
    by fastforce
  have tracked: "tracks (insert (js ''graph_hash'') abi_names) (probe_call (traced (demo_E probe_imports)) (js ''graph_hash'') [js ''ttl''])
      (probe_call (demo_E probe_imports) (js ''graph_hash'') [js ''ttl''])"
    unfolding probe_call_def probe_putStr_eq is_func_traced by (intro tracks_intros) auto
  obtain u where plain_run: "probe_call (demo_E probe_imports) (js ''graph_hash'') [js ''ttl''] demo_ready
      = (u, Inr (service_answer demo_service (js ''graph_hash'', [js ''ttl''])))"
    using probe_call_answers [OF demo_serves demo_idle demo_answerable(1), of "''ttl''" probe_imports] by auto
  have r: "r = Inr (service_answer demo_service (js ''graph_hash'', [js ''ttl'']))"
    using tracks_fresh(1) [OF tracked, of demo_ready] unfolding run plain_run by simp
  show ?thesis using run r probe_protocol [OF run [unfolded r]] by blast
qed

end
