(* ===== verification/Host_File.thy ===== *)
theory Host_File
  imports Demo_World
begin

text \<open>
  \<open>priv/graphlaw/graphlaw_host.mjs\<close>: a batch of calls from a JSON request file, against an
  allowlist of five exports, with one JSON object on standard output and exit status 0.
\<close>

section \<open>The process\<close>

definition file_exported :: "jstr list" where
  "file_exported = map js [''graphlaw_version'', ''graph_hash'', ''blake3_hex'', ''validate_all'', ''run_hooks'']"

definition file_fail :: "jstr \<Rightarrow> outcome" where
  "file_fail message = Exit (stringify (JObj [ok_field False, (js ''error'', JStr message)])) 0"

definition file_imports :: import_obj where
  "file_imports = two_imports fill_deterministic"

definition file_putString :: "'s exports_obj \<Rightarrow> jstr \<Rightarrow> ('s inst, i32 \<times> i32) comp" where
  "file_putString E s = (let encoded = utf8_encode s in put_bytes E (length encoded) encoded)"

definition file_call :: "'s exports_obj \<Rightarrow> jstr \<Rightarrow> jstr list \<Rightarrow> ('s inst, jstr) comp" where
  "file_call E fn args = string_call E (file_putString E) fn args"

text \<open>\<open>args.every((a) => typeof a === "string")\<close>; only an array has \<open>every\<close>.\<close>

definition file_every_string :: "jv \<Rightarrow> exn + jstr list option" where
  "file_every_string args =
     (case args of JArr vs \<Rightarrow> Inr (str_values vs) | _ \<Rightarrow> Inl (Fault (Not_a_function (js ''args.every''))))"

text \<open>
  One turn of the loop over the calls: the message of a \<open>fail\<close>, or the string to push. An exception
  leaves \<open>main\<close>.
\<close>

definition file_attempt ::
  "'s world \<Rightarrow> 's exports_obj \<Rightarrow> jstr \<Rightarrow> jstr list \<Rightarrow> ('s inst, jstr + jstr) comp" where
  "file_attempt W E f ss st =
     (case file_call E f ss st of
        (st', Inr out) \<Rightarrow> (st', Inr (Inr out))
      | (st', Inl e) \<Rightarrow>
          (st', Inr (Inl (js ''graphlaw call '' @ f @ js '' trapped: ''
                          @ message_of (engine_texts W) e))))"

definition file_entry :: "'s world \<Rightarrow> 's exports_obj \<Rightarrow> jv \<Rightarrow> ('s inst, jstr + jstr) comp" where
  "file_entry W E entry =
     (let fn = and_prop entry (js ''fn''); args = or_empty (and_prop entry (js ''args'')) in
      case fn of
        Some (JStr f) \<Rightarrow>
          (if f \<notin> set file_exported
           then returnC (Inl (js ''unsupported graphlaw export: '' @ f))
           else if \<not> is_func E f
           then returnC (Inl (js ''graphlaw wasm does not export '' @ f))
           else case file_every_string args of
             Inl e \<Rightarrow> throwC e
           | Inr None \<Rightarrow>
               returnC (Inl (js ''graphlaw call '' @ f @ js '' received a non-string argument''))
           | Inr (Some ss) \<Rightarrow> file_attempt W E f ss)
      | _ \<Rightarrow>
          bindC (liftC (to_string_opt fn)) (\<lambda>s.
            returnC (Inl (js ''unsupported graphlaw export: '' @ s))))"

fun file_calls ::
  "'s world \<Rightarrow> 's exports_obj \<Rightarrow> jv list \<Rightarrow> jstr list \<Rightarrow> ('s inst, jstr + jstr list) comp" where
  "file_calls W E [] results = returnC (Inr results)"
| "file_calls W E (entry # calls) results =
     bindC (file_entry W E entry) (\<lambda>r. case r of
       Inl message \<Rightarrow> returnC (Inl message)
     | Inr out \<Rightarrow> file_calls W E calls (results @ [out]))"

definition file_answer :: "'s inst \<times> (exn + (jstr + jstr list)) \<Rightarrow> exn + outcome" where
  "file_answer r =
     (case snd r of
        Inl e \<Rightarrow> Inl e
      | Inr (Inl message) \<Rightarrow> Inr (file_fail message)
      | Inr (Inr results) \<Rightarrow>
          Inr (Exit (stringify (JObj [ok_field True, (js ''results'', JArr (map JStr results))])) 0))"

text \<open>\<open>main\<close> from the request on: its result, or the exception it is rejected with.\<close>

definition file_serve :: "'s world \<Rightarrow> jv \<Rightarrow> exn + outcome" where
  "file_serve W request =
     (case get_prop request (js ''wasm_path'') of
        Inl e \<Rightarrow> Inl e
      | Inr (Some (JStr wasmPath)) \<Rightarrow>
          (if wasmPath = [] then Inr (file_fail (js ''host request is missing wasm_path''))
           else if \<not> exists_file W wasmPath
           then Inr (file_fail (js ''graphlaw wasm not found at '' @ wasmPath))
           else case get_prop request (js ''calls'') of
             Inr (Some (JArr calls)) \<Rightarrow>
               (case load_wasm W wasmPath file_imports of
                  Inl e \<Rightarrow>
                    Inr (file_fail (js ''graphlaw wasm instantiation failed: ''
                                    @ message_of (engine_texts W) e))
                | Inr (E, st) \<Rightarrow> file_answer (file_calls W E calls [] st))
           | _ \<Rightarrow> Inr (file_fail (js ''host request is missing calls'')))
      | Inr _ \<Rightarrow> Inr (file_fail (js ''host request is missing wasm_path'')))"

definition file_main :: "'s world \<Rightarrow> exn + outcome" where
  "file_main W =
     (if blank (arg_at W 2)
      then Inr (file_fail (js ''host invoked without a request file path''))
      else case (case read_text W (the (arg_at W 2)) of Inl e \<Rightarrow> Inl e | Inr s \<Rightarrow> json_parse s) of
        Inl e \<Rightarrow> Inr (file_fail (js ''host request is not readable JSON: ''
                                 @ message_of (engine_texts W) e))
      | Inr request \<Rightarrow> file_serve W request)"

text \<open>\<open>main().catch((e) => fail(e && e.message ? e.message : e))\<close>\<close>

definition file_process :: "'s world \<Rightarrow> outcome" where
  "file_process W =
     (case file_main W of
        Inl e \<Rightarrow> file_fail (error_text (engine_texts W) e)
      | Inr out \<Rightarrow> out)"

section \<open>Contract\<close>

lemma file_fail_response [intro, simp]: "is_response [] (\<lambda>_. 0) (file_fail message)"
  unfolding file_fail_def by (rule responseI_bare) (simp_all add: is_digit_def)

lemma file_answer_response: "file_answer r = Inr out \<Longrightarrow> is_response [] (\<lambda>_. 0) out"
  unfolding file_answer_def
  by (auto split: sum.splits intro!: responseI_bare simp: is_digit_def simp del: plain.simps)

lemma file_serve_response: "file_serve W request = Inr out \<Longrightarrow> is_response [] (\<lambda>_. 0) out"
  unfolding file_serve_def
  by (auto split: sum.splits option.splits jv.splits if_splits dest: file_answer_response)

interpretation batch: responder file_process "\<lambda>_. True" "[]" "\<lambda>_. 0"
proof
  fix W :: "'s world"
  show "is_response [] (\<lambda>_. 0) (file_process W)"
    unfolding file_process_def file_main_def
    by (auto split: sum.split intro: file_serve_response)
qed simp

section \<open>Only the five exports are called\<close>

lemma tracks_file_attempt [tracks_intros]:
  assumes "insert f abi_names \<subseteq> P"
  shows "tracks P (file_attempt (traced_world W) (traced E) f ss) (file_attempt W E f ss)"
proof -
  let ?h = "\<lambda>r. case r of Inr out \<Rightarrow> Inr (Inr out)
    | Inl e \<Rightarrow> Inr (Inl (js ''graphlaw call '' @ f @ js '' trapped: '' @ message_of (engine_texts W) e))"
  have "file_attempt (traced_world W) (traced E) f ss = (\<lambda>st. case file_call (traced E) f ss st of (t, r) \<Rightarrow> (t, ?h r))"
    "file_attempt W E f ss = (\<lambda>st. case file_call E f ss st of (t, r) \<Rightarrow> (t, ?h r))"
    unfolding file_attempt_def traced_world_simps by (rule ext, simp split: prod.split sum.split)+
  moreover have "tracks P (file_call (traced E) f ss) (file_call E f ss)"
    unfolding file_call_def file_putString_def by (intro tracks_intros) (use assms in auto)
  ultimately show ?thesis by (simp only: tracks_try)
qed

lemma tracks_file_entry [tracks_intros]:
  "tracks (set file_exported \<union> abi_names) (file_entry (traced_world W) (traced E) c) (file_entry W E c)"
  unfolding file_entry_def Let_def is_func_traced
  by (auto split: option.split jv.split sum.split intro!: tracks_intros)

lemma tracks_file_calls [tracks_intros]:
  "tracks (set file_exported \<union> abi_names) (file_calls (traced_world W) (traced E) calls rs) (file_calls W E calls rs)"
proof (induction calls arbitrary: rs)
  case (Cons c calls)
  show ?case unfolding file_calls.simps by (intro tracks_intros Cons.IH)
qed (simp add: tracks_intros)

text \<open>
  C15: a batch calls no function of the module except the five of the allowlist and the three of the
  string protocol, whatever the request says and whether or not the batch fails; recording the calls
  changes neither the answer nor the instance.
\<close>

theorem file_allowlist:
  "fst ` set (log_of (fst (file_calls (traced_world W) (traced E) calls [] (logged st []))))
      \<subseteq> set file_exported \<union> abi_names
   \<and> snd (file_calls (traced_world W) (traced E) calls [] (logged st [])) = snd (file_calls W E calls [] st)
   \<and> erase (fst (file_calls (traced_world W) (traced E) calls [] (logged st []))) = fst (file_calls W E calls [] st)"
  using tracks_fresh [OF tracks_file_calls [of W E calls "[]"], of st] by blast

section \<open>Answers\<close>

lemma file_putString_eq: "file_putString E = (\<lambda>s. put_bytes E (length (utf8_encode s)) (utf8_encode s))"
  by (simp add: fun_eq_iff file_putString_def Let_def)

lemma file_entry_answers:
  assumes "serves E sv" "sv_idle sv st" "answerable sv c" "fst c \<in> set file_exported"
  shows "\<exists>t. file_entry W E (call_entry c) st = (t, Inr (Inr (service_answer sv c))) \<and> sv_idle sv t"
proof -
  obtain t where "file_call E (fst c) (snd c) st = (t, Inr (service_answer sv c))" "sv_idle sv t"
    using exchange_answers [OF assms(1,2), of "fst c" "snd c" length] assms(3)
    by (auto simp: file_call_def file_putString_eq)
  moreover have "is_func E (fst c)"
    using answerable_func [OF assms(1), of "fst c" "snd c"] assms(3) by simp
  ultimately show ?thesis
    using assms(4) by (simp add: file_entry_def file_attempt_def file_every_string_def)
qed

lemma file_calls_answers:
  assumes "serves E sv" "sv_idle sv st" "list_all (answerable sv) cs" "fst ` set cs \<subseteq> set file_exported"
  shows "\<exists>t. file_calls W E (map call_entry cs) rs st = (t, Inr (Inr (rs @ map (service_answer sv) cs)))
      \<and> sv_idle sv t"
  using assms(2-)
proof (induction cs arbitrary: st rs)
  case (Cons c cs)
  have c: "answerable sv c" "fst c \<in> set file_exported" using Cons.prems(2,3) by simp_all
  obtain t where "file_entry W E (call_entry c) st = (t, Inr (Inr (service_answer sv c)))" "sv_idle sv t"
    using file_entry_answers [OF assms(1) Cons.prems(1) c] by blast
  then show ?case using Cons.IH [of t "rs @ [service_answer sv c]"] Cons.prems by (simp add: bindC_def)
qed simp

text \<open>The request file of a batch.\<close>

definition file_request :: "jstr \<Rightarrow> (jstr \<times> jstr list) list \<Rightarrow> jv" where
  "file_request path cs = JObj [(js ''wasm_path'', JStr path), (js ''calls'', JArr (map call_entry cs))]"

lemma plain_file_request: "plain (file_request path cs)"
proof -
  have "own_order [js ''wasm_path'', js ''calls'']" by (rule own_order_words) (simp_all add: is_digit_def)
  then show ?thesis by (simp add: file_request_def list_all_iff)
qed

text \<open>
  C10: for a request file that is the JSON text of a batch of calls to allowlisted exports, the process
  prints \<open>{"ok":true,"results":[...]}\<close> with the module's answer to every call, in request order.
\<close>

theorem file_answers:
  assumes "argv W = node # script # req # rest" "req \<noteq> []"
    and "read_file W req = Inr (utf8_encode (stringify (file_request path cs)))"
    and "offers W path file_imports sv"
    and "list_all (answerable sv) cs" "fst ` set cs \<subseteq> set file_exported"
  shows "file_process W = Exit (stringify (JObj [ok_field True,
      (js ''results'', JArr (map (\<lambda>c. JStr (service_answer sv c)) cs))])) 0"
proof -
  obtain b E st where wasm: "exists_file W path" "path \<noteq> []" "read_file W path = Inr b"
    "instantiate_bytes W b file_imports = Inr (E, st)" "serves E sv" "sv_idle sv st"
    using assms(4) by (rule offersE)
  obtain t where "file_calls W E (map call_entry cs) [] st = (t, Inr (Inr (map (service_answer sv) cs)))"
    using file_calls_answers [OF wasm(5,6) assms(5,6), of W "[]"] by auto
  then have "file_serve W (file_request path cs) = Inr (Exit (stringify (JObj [ok_field True,
      (js ''results'', JArr (map (\<lambda>c. JStr (service_answer sv c)) cs))])) 0)"
    using wasm by (simp add: file_serve_def file_request_def get_prop_def load_wasm_def file_answer_def comp_def)
  then show ?thesis
    using assms(1-3) plain_file_request [of path cs]
    by (simp add: file_process_def file_main_def arg_at_def blank_def read_text_def wire_roundtrip)
qed

definition file_demo :: "unit world" where
  "file_demo = demo_world [js ''node'', js ''host'', js ''r''] None
     [(js ''w'', demo_wasm),
      (js ''r'', utf8_encode (stringify (file_request (js ''w'')
         [(js ''graph_hash'', [js ''ttl'']), (js ''graphlaw_version'', [])])))] []"

theorem file_answers_witness:
  "file_process file_demo = Exit (stringify (JObj [ok_field True,
      (js ''results'', JArr [str ''ttl'', str ''1''])])) 0"
  using file_answers [of file_demo "js ''node''" "js ''host''" "js ''r''" "[]" "js ''w''"
      "[(js ''graph_hash'', [js ''ttl'']), (js ''graphlaw_version'', [])]" demo_service]
  by (simp add: file_demo_def demo_offers demo_answerable demo_answer file_exported_def)

text \<open>
  A failing call ends the batch: the calls after it are not made, the instance stays as the failing
  call left it, and its message is the batch's answer.
\<close>

theorem file_first_failure:
  assumes "file_calls W E cs [] st = (t, Inr (Inr rs))" "file_entry W E c t = (u, Inr (Inl message))"
  shows "file_calls W E (cs @ c # later) [] st = (u, Inr (Inl message))"
proof -
  have "file_calls W E cs acc st = (t, Inr (Inr rs)) \<Longrightarrow>
      file_calls W E (cs @ c # later) acc st = (u, Inr (Inl message))" for acc
  proof (induction cs arbitrary: acc st)
    case Nil
    then show ?case using assms(2) by (simp add: bindC_def)
  next
    case (Cons d cs)
    then obtain s r where r: "file_entry W E d st = (s, Inr r)"
      "(case r of Inl m \<Rightarrow> returnC (Inl m) | Inr out \<Rightarrow> file_calls W E cs (acc @ [out])) s = (t, Inr (Inr rs))"
      by (auto simp: bindC_Inr_iff)
    then obtain out where "r = Inr out" by (cases r) auto
    with r have "file_entry W E d st = (s, Inr (Inr out))"
      "file_calls W E cs (acc @ [out]) s = (t, Inr (Inr rs))"
      by simp_all
    then show ?case using Cons.IH by (simp add: bindC_def)
  qed
  then show ?thesis using assms(1) by blast
qed

theorem file_first_failure_witness:
  "file_calls file_demo (demo_E file_imports) ([] @ call_entry (js ''blake3_hex'', []) # [JNull]) [] demo_ready
     = (demo_ready, Inr (Inl (js ''graphlaw call blake3_hex trapped: engine'')))"
proof (rule file_first_failure)
  show "file_calls file_demo (demo_E file_imports) [] [] demo_ready = (demo_ready, Inr (Inr []))" by simp
  have "js ''graphlaw call blake3_hex trapped: engine''
      = js ''graphlaw call '' @ js ''blake3_hex'' @ js '' trapped: '' @ js ''engine''"
    by (simp add: js_def)
  then show "file_entry file_demo (demo_E file_imports) (call_entry (js ''blake3_hex'', [])) demo_ready
      = (demo_ready, Inr (Inl (js ''graphlaw call blake3_hex trapped: engine'')))"
    by (simp add: file_entry_def file_exported_def is_func_def file_every_string_def file_attempt_def
        file_call_def string_call_def finish_call_def bindC_def demo_sp_def demo_trap_def file_demo_def demo_texts_def)
qed


end
