(* ===== verification/Host_Driver.thy ===== *)
theory Host_Driver
  imports Demo_World
begin

text \<open>
  \<open>priv/graphlaw/graphlaw_driver.mjs\<close>: a batch of calls read from standard input; every call
  answers for itself with \<open>{"ok": ...}\<close> or \<open>{"error": ...}\<close>, and the instance outlives a failed call.
\<close>

section \<open>The process\<close>

definition driver_fail :: "jstr \<Rightarrow> outcome" where
  "driver_fail message = Exit (stringify (JObj [ok_field False, (js ''error'', JStr message)])) 0"

definition driver_imports :: import_obj where
  "driver_imports = two_imports fill_deterministic"

definition driver_putStr :: "'s exports_obj \<Rightarrow> jstr \<Rightarrow> ('s inst, i32 \<times> i32) comp" where
  "driver_putStr E s = (let b = utf8_encode s in put_bytes E (length b) b)"

definition driver_callString :: "'s exports_obj \<Rightarrow> jstr \<Rightarrow> jstr list \<Rightarrow> ('s inst, jstr) comp" where
  "driver_callString E fnName strs =
     (if \<not> is_func E fnName
      then throwC (Thrown (js ''wasm module exports no function named '' @ fnName))
      else string_call E (driver_putStr E) fnName strs)"

definition driver_ok :: "jstr \<Rightarrow> jv" where
  "driver_ok s = JObj [(js ''ok'', JStr s)]"

definition driver_error :: "jstr \<Rightarrow> jv" where
  "driver_error s = JObj [(js ''error'', JStr s)]"

text \<open>The \<open>try\<close>/\<open>catch\<close> around one call: what is pushed, and the instance it leaves.\<close>

definition driver_entry ::
  "'s world \<Rightarrow> 's exports_obj \<Rightarrow> jv \<Rightarrow> 's inst \<Rightarrow> 's inst \<times> jv" where
  "driver_entry W E call st =
     (let fnName = and_prop call (js ''fn''); args = or_empty (and_prop call (js ''args'')) in
      case fnName of
        Some (JStr f) \<Rightarrow>
          (case (case args of JArr vs \<Rightarrow> str_values vs | _ \<Rightarrow> None) of
             None \<Rightarrow> (st, driver_error (js ''call.args must be an array of strings''))
           | Some ss \<Rightarrow>
               (case driver_callString E f ss st of
                  (st', Inr out) \<Rightarrow> (st', driver_ok out)
                | (st', Inl e) \<Rightarrow> (st', driver_error (error_text (engine_texts W) e))))
      | _ \<Rightarrow> (st, driver_error (js ''call.fn must be a string'')))"

fun driver_calls ::
  "'s world \<Rightarrow> 's exports_obj \<Rightarrow> jv list \<Rightarrow> 's inst \<Rightarrow> 's inst \<times> jv list" where
  "driver_calls W E [] st = (st, [])"
| "driver_calls W E (call # calls) st =
     (let (st1, r) = driver_entry W E call st; (st2, rs) = driver_calls W E calls st1
      in (st2, r # rs))"

definition driver_serve :: "'s world \<Rightarrow> jv \<Rightarrow> outcome" where
  "driver_serve W request =
     (case get_prop request (js ''wasm'') of
        Inl e \<Rightarrow> Uncaught [] e
      | Inr (Some (JStr wasmPath)) \<Rightarrow>
          (if wasmPath = []
           then driver_fail (js ''request.wasm must be a non-empty absolute path string'')
           else if \<not> exists_file W wasmPath
           then driver_fail (js ''wasm module not found at '' @ wasmPath)
           else case get_prop request (js ''calls'') of
             Inr (Some (JArr calls)) \<Rightarrow>
               (case load_wasm W wasmPath driver_imports of
                  Inl e \<Rightarrow> driver_fail (js ''wasm instantiation failed: ''
                                        @ message_of (engine_texts W) e)
                | Inr (E, st) \<Rightarrow>
                    Exit (stringify (JObj [ok_field True,
                            (js ''results'', JArr (snd (driver_calls W E calls st)))])) 0)
           | _ \<Rightarrow> driver_fail (js ''request.calls must be an array''))
      | Inr _ \<Rightarrow> driver_fail (js ''request.wasm must be a non-empty absolute path string''))"

definition driver_main :: "'s world \<Rightarrow> outcome" where
  "driver_main W =
     (case stdin_bytes W of
        Inl e \<Rightarrow> Uncaught [] e
      | Inr b \<Rightarrow>
          (case json_parse (utf8_decode b) of
             Inl e \<Rightarrow> driver_fail (js ''stdin is not valid JSON: '' @ message_of (engine_texts W) e)
           | Inr request \<Rightarrow> driver_serve W request))"

section \<open>Contract\<close>

text \<open>Standard input can be read and does not hold the JSON text \<open>null\<close>.\<close>

definition driver_accepts :: "'s world \<Rightarrow> bool" where
  "driver_accepts W =
     (case stdin_bytes W of Inl e \<Rightarrow> False | Inr b \<Rightarrow> json_parse (utf8_decode b) \<noteq> Inr JNull)"

lemma driver_fail_response [intro, simp]: "is_response [] (\<lambda>_. 0) (driver_fail message)"
  unfolding driver_fail_def by (rule responseI_bare) (simp_all add: is_digit_def)

lemma plain_driver_results: "plain (driver_ok s)" "plain (driver_error s)"
  by (simp_all add: driver_ok_def driver_error_def own_order_def)

lemma driver_entry_plain: "plain (snd (driver_entry W E call st))"
  by (auto simp: driver_entry_def Let_def plain_driver_results
      split: option.split jv.split prod.split sum.split)

lemma driver_calls_plain: "list_all plain (snd (driver_calls W E calls st))"
proof (induction calls arbitrary: st)
  case (Cons call calls)
  then show ?case
    using driver_entry_plain [of W E call st] by (simp add: Let_def split_beta)
qed simp

lemma length_driver_calls: "length (snd (driver_calls W E calls st)) = length calls"
  by (induction calls arbitrary: st) (simp_all add: Let_def split_beta)

lemma driver_serve_response:
  "request \<noteq> JNull \<Longrightarrow> is_response [] (\<lambda>_. 0) (driver_serve W request)"
  unfolding driver_serve_def
  by (cases request)
     (auto simp: get_prop_def is_digit_def driver_calls_plain split: sum.split option.split jv.split
       intro!: responseI_bare)

interpretation driver: responder driver_main driver_accepts "[]" "\<lambda>_. 0"
proof
  fix W :: "'s world"
  assume "driver_accepts W"
  then show "is_response [] (\<lambda>_. 0) (driver_main W)"
    unfolding driver_main_def driver_accepts_def
    by (auto split: sum.split sum.splits intro: driver_serve_response)
qed simp

section \<open>Answers\<close>

lemma driver_putStr_eq: "driver_putStr E = (\<lambda>s. put_bytes E (length (utf8_encode s)) (utf8_encode s))"
  by (simp add: fun_eq_iff driver_putStr_def Let_def)

lemma driver_entry_answers:
  assumes "serves E sv" "sv_idle sv st" "answerable sv c"
  shows "\<exists>t. driver_entry W E (call_entry c) st = (t, driver_ok (service_answer sv c)) \<and> sv_idle sv t"
proof -
  obtain t where "string_call E (driver_putStr E) (fst c) (snd c) st = (t, Inr (service_answer sv c))"
    "sv_idle sv t"
    using exchange_answers [OF assms(1,2), of "fst c" "snd c" length] assms(3)
    by (auto simp: driver_putStr_eq)
  moreover have "is_func E (fst c)"
    using answerable_func [OF assms(1), of "fst c" "snd c"] assms(3) by simp
  ultimately show ?thesis by (simp add: driver_entry_def driver_callString_def)
qed

lemma driver_calls_answers:
  assumes "serves E sv" "sv_idle sv st" "list_all (answerable sv) cs"
  shows "\<exists>t. driver_calls W E (map call_entry cs) st = (t, map (\<lambda>c. driver_ok (service_answer sv c)) cs)
      \<and> sv_idle sv t"
  using assms(2-)
proof (induction cs arbitrary: st)
  case (Cons c cs)
  have c: "answerable sv c" and cs: "list_all (answerable sv) cs" using Cons.prems(2) by simp_all
  obtain t where t: "driver_entry W E (call_entry c) st = (t, driver_ok (service_answer sv c))" "sv_idle sv t"
    using driver_entry_answers [OF assms(1) Cons.prems(1) c] by blast
  obtain u where "driver_calls W E (map call_entry cs) t = (u, map (\<lambda>c. driver_ok (service_answer sv c)) cs)"
    "sv_idle sv u"
    using Cons.IH [OF t(2) cs] by blast
  then show ?case using t(1) by simp
qed simp

definition driver_request :: "jstr \<Rightarrow> jv list \<Rightarrow> jv" where
  "driver_request path calls = JObj [(js ''wasm'', JStr path), (js ''calls'', JArr calls)]"

lemma plain_driver_request: "list_all plain calls \<Longrightarrow> plain (driver_request path calls)"
proof -
  have "own_order [js ''wasm'', js ''calls'']" by (rule own_order_words) (simp_all add: is_digit_def)
  then show "list_all plain calls \<Longrightarrow> plain (driver_request path calls)" by (simp add: driver_request_def)
qed

lemma plain_call_entries [simp]: "list_all plain (map call_entry cs)"
  by (simp add: list_all_iff)

text \<open>
  C9: given on standard input the JSON text of a batch of calls the module can answer, the process prints
  \<open>{"ok":true,"results":[{"ok":...},...]}\<close> with the module's answers in request order.
\<close>

theorem driver_answers:
  assumes "stdin_bytes W = Inr (utf8_encode (stringify (driver_request path (map call_entry cs))))"
    and "offers W path driver_imports sv" "list_all (answerable sv) cs"
  shows "driver_main W = Exit (stringify (JObj [ok_field True,
      (js ''results'', JArr (map (\<lambda>c. driver_ok (service_answer sv c)) cs))])) 0"
proof -
  obtain b E st where wasm: "exists_file W path" "path \<noteq> []" "read_file W path = Inr b"
    "instantiate_bytes W b driver_imports = Inr (E, st)" "serves E sv" "sv_idle sv st"
    using assms(2) by (rule offersE)
  obtain t where "driver_calls W E (map call_entry cs) st = (t, map (\<lambda>c. driver_ok (service_answer sv c)) cs)"
    using driver_calls_answers [OF wasm(5,6) assms(3)] by blast
  then have "driver_serve W (driver_request path (map call_entry cs)) = Exit (stringify (JObj [ok_field True,
      (js ''results'', JArr (map (\<lambda>c. driver_ok (service_answer sv c)) cs))])) 0"
    using wasm by (simp add: driver_serve_def driver_request_def get_prop_def load_wasm_def)
  then show ?thesis
    using assms(1) by (simp add: driver_main_def wire_roundtrip plain_driver_request)
qed

theorem driver_answers_witness:
  "driver_main (demo_world [] None [(js ''w'', demo_wasm)]
       (utf8_encode (stringify (driver_request (js ''w'') (map call_entry [(js ''graph_hash'', [js ''ttl''])])))))
   = Exit (stringify (JObj [ok_field True, (js ''results'', JArr [driver_ok (js ''ttl'')])])) 0"
  by (subst driver_answers [where path = "js ''w''" and cs = "[(js ''graph_hash'', [js ''ttl''])]"
        and sv = demo_service])
     (simp_all add: demo_offers demo_answerable demo_answer)

section \<open>One call does not disturb the others\<close>

text \<open>The export and the arguments of a call that reaches the module.\<close>

definition driver_target :: "'s exports_obj \<Rightarrow> jv \<Rightarrow> (jstr \<times> jstr list) option" where
  "driver_target E call =
     (case (and_prop call (js ''fn''), or_empty (and_prop call (js ''args''))) of
        (Some (JStr f), JArr vs) \<Rightarrow>
          (case str_values vs of
             Some ss \<Rightarrow> if is_func E f then Some (f, ss) else None
           | None \<Rightarrow> None)
      | _ \<Rightarrow> None)"

lemma driver_entry_target:
  "driver_entry W E call st =
     (case driver_target E call of
        Some (f, ss) \<Rightarrow>
          (case string_call E (driver_putStr E) f ss st of
             (t, Inr out) \<Rightarrow> (t, driver_ok out)
           | (t, Inl e) \<Rightarrow> (t, driver_error (error_text (engine_texts W) e)))
      | None \<Rightarrow> (st, snd (driver_entry W E call st)))"
  by (auto simp: driver_entry_def driver_target_def driver_callString_def Let_def
      split: option.split jv.split prod.split sum.split)

lemma driver_entry_off_target:
  "driver_target E call = None \<Longrightarrow> \<exists>m. \<forall>st. driver_entry W E call st = (st, driver_error m)"
  by (auto simp: driver_entry_def driver_target_def driver_callString_def Let_def
      split: option.splits jv.splits prod.splits sum.splits if_splits)

lemma driver_calls_append:
  "driver_calls W E (xs @ ys) st =
     (let (t, rs) = driver_calls W E xs st; (u, qs) = driver_calls W E ys t in (u, rs @ qs))"
  by (induction xs arbitrary: st) (simp_all add: Let_def split_beta)

text \<open>
  A call that is malformed (a name or arguments of the wrong type, a name the module does not export as
  a function) answers \<open>{"error":...}\<close> in its own place and changes nothing else: the instance and every other
  answer of the batch are those of the batch without it.
\<close>

theorem driver_malformed_isolated:
  assumes "driver_target E c = None"
  shows "\<exists>m. driver_calls W E (xs @ c # ys) st =
      (let (t, rs) = driver_calls W E (xs @ ys) st
       in (t, take (length xs) rs @ driver_error m # drop (length xs) rs))"
proof -
  obtain m where "driver_entry W E c s = (s, driver_error m)" for s
    using driver_entry_off_target [OF assms, of W] by blast
  then show ?thesis
    using length_driver_calls [of W E xs st]
    by (intro exI [of _ m]) (simp add: driver_calls_append Let_def split_beta)
qed

theorem driver_malformed_isolated_witness:
  "\<exists>m. driver_calls (demo_world [] None [] []) (demo_E driver_imports)
       ([call_entry (js ''graphlaw_version'', [])] @ JNull # [call_entry (js ''nope'', [])]) demo_ready =
      (let (t, rs) = driver_calls (demo_world [] None [] []) (demo_E driver_imports)
           ([call_entry (js ''graphlaw_version'', [])] @ [call_entry (js ''nope'', [])]) demo_ready
       in (t, take (length [call_entry (js ''graphlaw_version'', [])]) rs @ driver_error m
              # drop (length [call_entry (js ''graphlaw_version'', [])]) rs))"
  by (rule driver_malformed_isolated) (simp add: driver_target_def and_prop_def)

section \<open>The stack pointer\<close>

text \<open>How often an exchange moved the module's stack pointer down, and back up.\<close>

definition reserved :: "call list \<Rightarrow> nat" where
  "reserved l = length (filter (\<lambda>c. c = (sp_name, [-16])) l)"

definition restored :: "call list \<Rightarrow> nat" where
  "restored l = length (filter (\<lambda>c. c = (sp_name, [16])) l)"

lemma moves_append [simp]:
  "reserved (l @ k) = reserved l + reserved k" "restored (l @ k) = restored l + restored k"
  "reserved [] = 0" "restored [] = 0"
  by (simp_all add: reserved_def restored_def)

lemma moves_none: "sp_name \<notin> fst ` set l \<Longrightarrow> reserved l = 0 \<and> restored l = 0"
  by (force simp: reserved_def restored_def filter_empty_conv)

lemma moves_Cons [simp]:
  "reserved (c # l) = (if c = (sp_name, [-16]) then 1 else 0) + reserved l"
  "restored (c # l) = (if c = (sp_name, [16]) then 1 else 0) + restored l"
  by (simp_all add: reserved_def restored_def)

lemma moves_exchange:
  assumes "fn \<noteq> sp_name"
  shows "reserved (exchange_log sz fn rp ps bs r0 r1) = 1 \<and> restored (exchange_log sz fn rp ps bs r0 r1) = 1"
proof -
  have "reserved (map (\<lambda>b. (malloc_name, [of_nat (sz b), 1])) bs) = 0
      \<and> restored (map (\<lambda>b. (malloc_name, [of_nat (sz b), 1])) bs) = 0"
    by (rule moves_none) auto
  then show ?thesis using assms by (auto simp: exchange_log_def)
qed

definition is_ok :: "jv \<Rightarrow> bool" where
  "is_ok r \<longleftrightarrow> (\<exists>s. r = driver_ok s)"

lemma driver_ok_error [simp]: "driver_ok s \<noteq> driver_error m"
  by (simp add: driver_ok_def driver_error_def)

lemma is_ok_simps [simp]: "is_ok (driver_ok s)" "\<not> is_ok (driver_error s)"
  by (auto simp: is_ok_def dest: sym)

lemma driver_target_traced [simp]: "driver_target (traced E) c = driver_target E c"
  unfolding driver_target_def is_func_traced by (rule refl)

lemma driver_entry_moves:
  assumes "steady E sp_name" "steady E free_name"
    and "\<And>f ss. driver_target E c = Some (f, ss) \<Longrightarrow> f \<noteq> sp_name"
    and "driver_entry W (traced E) c st = (t, r)"
  shows "reserved (log_of t) = reserved (log_of st) + (if driver_target E c = None then 0 else 1)
      \<and> restored (log_of t) = restored (log_of st) + (if is_ok r then 1 else 0)"
proof (cases "driver_target E c")
  case None
  then obtain m where "driver_entry W (traced E) c st = (st, driver_error m)"
    using driver_entry_off_target [of "traced E" c W] by auto
  then show ?thesis using None assms(4) by simp
next
  case (Some fs)
  obtain f ss where fs: "fs = (f, ss)" by fastforce
  have f: "f \<noteq> sp_name" using assms(3) Some fs by simp
  obtain u q where call: "string_call (traced E) (driver_putStr (traced E)) f ss st = (u, q)" by fastforce
  show ?thesis
  proof (cases q)
    case (Inr out)
    then have r: "t = u" "r = driver_ok out"
      using assms(4) Some fs call by (simp_all add: driver_entry_target [of W "traced E"])
    obtain rp ps r0 r1 where "log_of u = log_of st @ exchange_log length f rp ps (map utf8_encode ss) r0 r1"
      using exchange_protocol [of E length utf8_encode f ss st u out] call Inr
      by (auto simp: driver_putStr_eq)
    then show ?thesis using moves_exchange [OF f] Some r by simp
  next
    case (Inl e)
    then have r: "t = u" "r = driver_error (error_text (engine_texts W) e)"
      using assms(4) Some fs call by (simp_all add: driver_entry_target [of W "traced E"])
    obtain l where l: "log_of u = log_of st @ (sp_name, [-16]) # l" "fst ` set l \<subseteq> {malloc_name, f}"
      using exchange_leak [of E "\<lambda>s. length (utf8_encode s)" utf8_encode f ss st u e, OF _ assms(1,2)] call Inl
      by (auto simp: driver_putStr_eq)
    have "sp_name \<notin> fst ` set l" using l(2) f by auto
    then show ?thesis using l(1) Some r moves_none [of l] by simp
  qed
qed

text \<open>
  C23: the stack pointer leaks. Every call that reaches the module moves it down by 16, but only a call that
  succeeds moves it back; the instance lives on, so after a batch it is 16 bytes lower for every call that
  reached the module and failed.
\<close>

theorem driver_stack_leak:
  assumes "steady E sp_name" "steady E free_name"
    and "\<forall>c \<in> set calls. \<forall>f ss. driver_target E c = Some (f, ss) \<longrightarrow> f \<noteq> sp_name"
    and "driver_calls (traced_world W) (traced E) calls st = (t, rs)"
  shows "reserved (log_of t) = reserved (log_of st) + length (filter (\<lambda>c. driver_target E c \<noteq> None) calls)
      \<and> restored (log_of t) = restored (log_of st) + length (filter is_ok rs)"
  using assms(3,4)
proof (induction calls arbitrary: st rs)
  case (Cons c calls)
  obtain u r where e: "driver_entry (traced_world W) (traced E) c st = (u, r)" by fastforce
  obtain rs' where rest: "driver_calls (traced_world W) (traced E) calls u = (t, rs')" "rs = r # rs'"
    using Cons.prems(2) e by (auto simp: Let_def split: prod.splits)
  have "reserved (log_of t) = reserved (log_of u) + length (filter (\<lambda>c. driver_target E c \<noteq> None) calls)
      \<and> restored (log_of t) = restored (log_of u) + length (filter is_ok rs')"
    using Cons.IH [OF _ rest(1)] Cons.prems(1) by simp
  moreover have "reserved (log_of u) = reserved (log_of st) + (if driver_target E c = None then 0 else 1)
      \<and> restored (log_of u) = restored (log_of st) + (if is_ok r then 1 else 0)"
    using driver_entry_moves [OF assms(1,2) _ e] Cons.prems(1) by simp
  ultimately show ?case using rest(2) by auto
qed simp

text \<open>Two calls that trap leave the stack pointer 32 bytes lower.\<close>

theorem driver_stack_leak_witness:
  "\<exists>t rs. driver_calls (traced_world (demo_world [] None [] [])) (traced (demo_E driver_imports))
        [call_entry (js ''blake3_hex'', []), call_entry (js ''blake3_hex'', [])] (logged demo_ready []) = (t, rs)
      \<and> reserved (log_of t) = 2 \<and> restored (log_of t) = length (filter is_ok rs) \<and> filter is_ok rs = []"
proof -
  let ?W = "traced_world (demo_world [] None [] [])"
  let ?cs = "[call_entry (js ''blake3_hex'', []), call_entry (js ''blake3_hex'', [])]"
  obtain t rs where run: "driver_calls ?W (traced (demo_E driver_imports)) ?cs (logged demo_ready []) = (t, rs)" by fastforce
  have "steady (demo_E driver_imports) sp_name" "steady (demo_E driver_imports) free_name"
    by (simp_all add: steady_def demo_sp_def demo_free_def)
  moreover have target: "driver_target (demo_E driver_imports) (call_entry (js ''blake3_hex'', [])) = Some (js ''blake3_hex'', [])"
    by (simp add: driver_target_def is_func_def)
  ultimately have "reserved (log_of t) = 2 \<and> restored (log_of t) = length (filter is_ok rs)"
    using driver_stack_leak [OF _ _ _ run] by simp
  moreover have "\<not> is_ok (snd (driver_entry ?W (traced (demo_E driver_imports)) (call_entry (js ''blake3_hex'', [])) s))" for s
    by (simp add: driver_entry_target [of ?W] target string_call_def finish_call_def call_traced demo_sp_def
        demo_trap_def bindC_def is_func_def)
  then have "filter is_ok rs = []"
    using run by (auto simp: Let_def split: prod.splits) (metis snd_conv)+
  ultimately show ?thesis using run by blast
qed

section \<open>The process always answers, except for null\<close>

text \<open>
  Unless standard input fails or holds the JSON text \<open>null\<close>, the process prints one JSON object with a
  boolean \<open>ok\<close> and exits with status 0.
\<close>

theorem driver_responds:
  assumes "driver_accepts W"
  shows "\<exists>out kvs b. driver_main W = Exit out 0 \<and> json_parse out = Inr (JObj kvs)
      \<and> map_of kvs (js ''ok'') = Some (JBool b)"
  using driver.caller_decodes [OF assms] by simp

theorem driver_responds_witness:
  "\<exists>out kvs b. driver_main (demo_world [] None [] []) = Exit out 0 \<and> json_parse out = Inr (JObj kvs)
      \<and> map_of kvs (js ''ok'') = Some (JBool b)"
  by (rule driver_responds)
     (simp add: driver_accepts_def json_parse_def utf8_decode_def units_of_cps_def parse_value.simps)

text \<open>
  The JSON text \<open>null\<close> on standard input, with any white space around it, kills the process with an
  uncaught TypeError and an empty standard output, where the protocol promises \<open>{"ok":false,...}\<close>.
\<close>

theorem driver_null_crash:
  assumes "stdin_bytes W = Inr b" "json_parse (utf8_decode b) = Inr JNull"
  shows "driver_main W = Uncaught [] (Fault (Undefined_base (js ''wasm'')))"
  using assms by (simp add: driver_main_def driver_serve_def get_prop_def)

theorem driver_null_crash_witness:
  "driver_main (demo_world [] None [] (utf8_encode (stringify JNull)))
     = Uncaught [] (Fault (Undefined_base (js ''wasm'')))"
  by (rule driver_null_crash [of _ "utf8_encode (stringify JNull)"]) (simp_all add: wire_roundtrip)

text \<open>
  C29: the process answers unless standard input holds \<open>null\<close>. When standard input can be read and is not the JSON
  text \<open>null\<close>, malformed JSON included, the process prints one JSON object with a boolean \<open>ok\<close> and exits with status
  0; when it holds \<open>null\<close> or cannot be read, the process dies of an exception with nothing printed, where the
  protocol promises \<open>{"ok":false,...}\<close>.
\<close>

theorem driver_dies_of_null:
  "if driver_accepts W
   then \<exists>out kvs b. driver_main W = Exit out 0 \<and> json_parse out = Inr (JObj kvs) \<and> map_of kvs (js ''ok'') = Some (JBool b)
   else \<exists>e. driver_main W = Uncaught [] e"
proof (cases "driver_accepts W")
  case False
  then have "\<exists>e. driver_main W = Uncaught [] e"
    by (auto simp: driver_accepts_def driver_main_def driver_serve_def get_prop_def split: sum.splits)
  with False show ?thesis by simp
qed (use driver.caller_decodes in simp)

end
