(* ===== verification/Host_Invoke.thy ===== *)
theory Host_Invoke
  imports Demo_World
begin

text \<open>
  \<open>priv/graphlaw/graphlaw_invoke.mjs\<close>: a batch of calls from a request file; the first failure fails
  the batch. The import is filled with real entropy, and any function export can be called.
\<close>

section \<open>The process\<close>

definition invoke_fail :: "jstr \<Rightarrow> outcome" where
  "invoke_fail message = Exit (stringify (JObj [ok_field False, (js ''error'', JStr message)])) 0"

text \<open>\<open>randomFillSync(new Uint8Array(inst.exports.memory.buffer, ptr, len))\<close>\<close>

definition invoke_imports :: "'s world \<Rightarrow> import_obj" where
  "invoke_imports W =
     two_imports (fill_view undefined_inst (\<lambda>l n. Inr (map (entropy W (lm_rng l)) [0..<n])))"

definition invoke_putStr :: "'s exports_obj \<Rightarrow> jstr \<Rightarrow> ('s inst, i32 \<times> i32) comp" where
  "invoke_putStr E s = (let b = utf8_encode s in put_bytes E (length b) b)"

text \<open>\<open>putStr(String(a))\<close>\<close>

definition invoke_putArg :: "'s exports_obj \<Rightarrow> jv \<Rightarrow> ('s inst, i32 \<times> i32) comp" where
  "invoke_putArg E a = bindC (liftC (to_string a)) (invoke_putStr E)"

text \<open>\<open>fn\<close> is used as a property key, so it is converted to a string.\<close>

definition invoke_callString :: "'s exports_obj \<Rightarrow> jv option \<Rightarrow> jv list \<Rightarrow> ('s inst, jstr) comp" where
  "invoke_callString E fn args =
     bindC (liftC (to_string_opt fn)) (\<lambda>k.
       if \<not> is_func E k then throwC (Thrown (js ''export not found: '' @ k))
       else string_call E (invoke_putArg E) k args)"

definition invoke_entry :: "'s exports_obj \<Rightarrow> jv \<Rightarrow> ('s inst, jstr) comp" where
  "invoke_entry E c =
     bindC (liftC (get_prop c (js ''fn''))) (\<lambda>fn.
     bindC (liftC (get_prop c (js ''args''))) (\<lambda>args.
       invoke_callString E fn (case args of Some (JArr vs) \<Rightarrow> vs | _ \<Rightarrow> [])))"

fun invoke_map :: "'s exports_obj \<Rightarrow> jv list \<Rightarrow> ('s inst, jstr list) comp" where
  "invoke_map E [] = returnC []"
| "invoke_map E (c # calls) =
     bindC (invoke_entry E c) (\<lambda>r. bindC (invoke_map E calls) (\<lambda>rs. returnC (r # rs)))"

definition invoke_calls :: "'s exports_obj \<Rightarrow> jv \<Rightarrow> ('s inst, jstr list) comp" where
  "invoke_calls E request =
     bindC (liftC (get_prop request (js ''calls''))) (\<lambda>calls.
       invoke_map E (case calls of Some (JArr vs) \<Rightarrow> vs | _ \<Rightarrow> []))"

definition invoke_finish :: "'s world \<Rightarrow> 's exports_obj \<Rightarrow> 's inst \<times> (exn + jstr list) \<Rightarrow> outcome" where
  "invoke_finish W E r =
     (case snd r of
        Inl e \<Rightarrow> invoke_fail (message_of (engine_texts W) e)
      | Inr results \<Rightarrow>
          Exit (stringify (JObj [ok_field True, (js ''results'', JArr (map JStr results)),
                  (js ''exports'', JNum (NInt (int (length (ex_table E)))))])) 0)"

definition invoke_main :: "'s world \<Rightarrow> outcome" where
  "invoke_main W =
     (if blank (arg_at W 2) \<or> blank (arg_at W 3)
      then invoke_fail (js ''usage: graphlaw_invoke.mjs <wasm_path> <request_json_path>'')
      else let wasmPath = the (arg_at W 2); requestPath = the (arg_at W 3) in
      case read_file W wasmPath of
        Inl e \<Rightarrow> invoke_fail (js ''cannot read wasm at '' @ wasmPath @ js '': ''
                              @ message_of (engine_texts W) e)
      | Inr bytes \<Rightarrow>
          (case (case read_text W requestPath of Inl e \<Rightarrow> Inl e | Inr s \<Rightarrow> json_parse s) of
             Inl e \<Rightarrow> invoke_fail (js ''cannot read request at '' @ requestPath @ js '': ''
                                   @ message_of (engine_texts W) e)
           | Inr request \<Rightarrow>
               (case instantiate_bytes W bytes (invoke_imports W) of
                  Inl e \<Rightarrow> invoke_fail (js ''wasm instantiation failed: ''
                                        @ message_of (engine_texts W) e)
                | Inr (E, st) \<Rightarrow> invoke_finish W E (invoke_calls E request st))))"

section \<open>Contract\<close>

text \<open>No engine accepts a module of more exports than a double can count.\<close>

definition invoke_accepts :: "'s world \<Rightarrow> bool" where
  "invoke_accepts W \<longleftrightarrow>
     (\<forall>b M. compile_wasm W b = Inr M \<longrightarrow> length (md_exports M) \<le> 2 ^ 53)"

lemma invoke_fail_response [intro, simp]: "is_response [] (\<lambda>_. 0) (invoke_fail message)"
  unfolding invoke_fail_def by (rule responseI_bare) (simp_all add: is_digit_def)

lemma instantiate_table:
  "instantiate_bytes W b imp = Inr (E, st) \<Longrightarrow>
     \<exists>M. compile_wasm W b = Inr M \<and> ex_table E = md_exports M"
  by (auto simp: instantiate_bytes_def instantiate_def split: sum.splits)

lemma invoke_finish_response:
  assumes "length (ex_table E) \<le> 2 ^ 53"
  shows "is_response [] (\<lambda>_. 0) (invoke_finish W E r)"
proof -
  have "int (length (ex_table E)) \<le> 2 ^ 53" using assms by simp
  then show ?thesis
    unfolding invoke_finish_def
    by (auto split: sum.split intro!: responseI_bare simp: is_digit_def list_all_iff)
qed

interpretation invoke: responder invoke_main invoke_accepts "[]" "\<lambda>_. 0"
proof
  fix W :: "'s world"
  assume "invoke_accepts W"
  then have "is_response [] (\<lambda>_. 0) (invoke_finish W E r)"
    if "instantiate_bytes W b (invoke_imports W) = Inr (E, st)" for b E st r
    using instantiate_table [OF that] by (auto simp: invoke_accepts_def intro: invoke_finish_response)
  then show "is_response [] (\<lambda>_. 0) (invoke_main W)"
    unfolding invoke_main_def Let_def by (auto split: sum.split)
qed simp

section \<open>Answers\<close>

lemma invoke_putArg_string: "invoke_putArg E (JStr s) = put_bytes E (length (utf8_encode s)) (utf8_encode s)"
  by (simp add: fun_eq_iff invoke_putArg_def invoke_putStr_def Let_def bindC_def)

lemma invoke_entry_answers:
  assumes "serves E sv" "sv_idle sv st" "answerable sv c"
  shows "\<exists>t. invoke_entry E (call_entry c) st = (t, Inr (service_answer sv c)) \<and> sv_idle sv t"
proof -
  obtain t where "string_call E (invoke_putArg E) (fst c) (map JStr (snd c)) st = (t, Inr (service_answer sv c))"
    "sv_idle sv t"
    using exchange_answers [OF assms(1,2), of "fst c" "snd c" length] assms(3)
    by (auto simp: string_call_map invoke_putArg_string)
  moreover have "is_func E (fst c)"
    using answerable_func [OF assms(1), of "fst c" "snd c"] assms(3) by simp
  ultimately show ?thesis
    by (simp add: invoke_entry_def invoke_callString_def to_string_opt_def bindC_def)
qed

lemma invoke_map_answers:
  assumes "serves E sv" "sv_idle sv st" "list_all (answerable sv) cs"
  shows "\<exists>t. invoke_map E (map call_entry cs) st = (t, Inr (map (service_answer sv) cs)) \<and> sv_idle sv t"
  using assms(2-)
proof (induction cs arbitrary: st)
  case (Cons c cs)
  have c: "answerable sv c" and cs: "list_all (answerable sv) cs" using Cons.prems(2) by simp_all
  obtain t where t: "invoke_entry E (call_entry c) st = (t, Inr (service_answer sv c))" "sv_idle sv t"
    using invoke_entry_answers [OF assms(1) Cons.prems(1) c] by blast
  obtain u where "invoke_map E (map call_entry cs) t = (u, Inr (map (service_answer sv) cs))" "sv_idle sv u"
    using Cons.IH [OF t(2) cs] by blast
  then show ?case using t(1) by (simp add: bindC_def)
qed simp

definition invoke_request :: "(jstr \<times> jstr list) list \<Rightarrow> jv" where
  "invoke_request cs = JObj [(js ''calls'', JArr (map call_entry cs))]"

lemma plain_invoke_request: "plain (invoke_request cs)"
proof -
  have "own_order [js ''calls'']" by (rule own_order_words) (simp_all add: is_digit_def)
  then show ?thesis by (simp add: invoke_request_def list_all_iff)
qed

text \<open>
  C13: for a request file that is the JSON text of a batch of calls, the process prints
  \<open>{"ok":true,"results":[...],"exports":n}\<close> with the module's answers in request order and the number of
  the module's exports.
\<close>

theorem invoke_answers:
  assumes "argv W = node # script # path # req # rest" "req \<noteq> []"
    and "read_file W req = Inr (utf8_encode (stringify (invoke_request cs)))"
    and "read_file W path = Inr b" "compile_wasm W b = Inr M"
    and "offers W path (invoke_imports W) sv" "list_all (answerable sv) cs"
  shows "invoke_main W = Exit (stringify (JObj [ok_field True,
      (js ''results'', JArr (map (\<lambda>c. JStr (service_answer sv c)) cs)),
      (js ''exports'', JNum (NInt (int (length (md_exports M)))))])) 0"
proof -
  obtain E st where wasm: "path \<noteq> []" "instantiate_bytes W b (invoke_imports W) = Inr (E, st)"
    "serves E sv" "sv_idle sv st"
    using assms(4,6) by (metis offersE sum.inject(2))
  obtain t where "invoke_map E (map call_entry cs) st = (t, Inr (map (service_answer sv) cs))"
    using invoke_map_answers [OF wasm(3,4) assms(7)] by blast
  then have "invoke_calls E (invoke_request cs) st = (t, Inr (map (service_answer sv) cs))"
    by (simp add: invoke_calls_def invoke_request_def get_prop_def bindC_def)
  moreover have "ex_table E = md_exports M"
    using instantiate_table [OF wasm(2)] assms(5) by simp
  ultimately show ?thesis
    using assms(1-4) wasm plain_invoke_request [of cs]
    by (simp add: invoke_main_def arg_at_def blank_def read_text_def wire_roundtrip invoke_finish_def comp_def)
qed

theorem invoke_answers_witness:
  "invoke_main (demo_world [js ''node'', js ''invoke'', js ''w'', js ''r''] None
       [(js ''w'', demo_wasm),
        (js ''r'', utf8_encode (stringify (invoke_request [(js ''graph_hash'', [js ''ttl''])])))] [])
   = Exit (stringify (JObj [ok_field True, (js ''results'', JArr [str ''ttl'']),
        (js ''exports'', JNum (NInt 7))])) 0"
  by (subst invoke_answers [where path = "js ''w''" and req = "js ''r''" and b = demo_wasm and M = demo_module
        and cs = "[(js ''graph_hash'', [js ''ttl''])]" and sv = demo_service])
     (simp_all add: demo_offers demo_answerable demo_answer demo_module_def demo_exports_def)

text \<open>
  Arguments of any JSON type cross the boundary as the text \<open>String\<close> makes of them: the call is the one
  with those texts as string arguments.
\<close>

theorem invoke_arguments_as_text:
  assumes "map to_string vs = map Inr ss"
  shows "invoke_callString E fn vs = invoke_callString E fn (map JStr ss)"
proof -
  have "push_args (invoke_putArg E) vs = push_args (invoke_putArg E) (map JStr ss)"
    using assms
  proof (induction vs arbitrary: ss)
    case (Cons v vs)
    then obtain s ss' where ss: "ss = s # ss'" "to_string v = Inr s" "map to_string vs = map Inr ss'"
      by auto
    have "invoke_putArg E v = invoke_putArg E (JStr s)"
      using ss(2) by (simp add: invoke_putArg_def)
    then show ?case using Cons.IH [OF ss(3)] ss(1) by simp
  qed simp
  then have "string_call E (invoke_putArg E) k vs = string_call E (invoke_putArg E) k (map JStr ss)" for k
    by (simp add: string_call_def)
  then show ?thesis by (simp only: invoke_callString_def)
qed

theorem invoke_arguments_as_text_witness:
  "invoke_callString (demo_E (invoke_imports (demo_world [] None [] []))) (Some (str ''graph_hash'')) [JNull, JBool True, JArr [JNull, JStr (js ''x'')]]
     = invoke_callString (demo_E (invoke_imports (demo_world [] None [] []))) (Some (str ''graph_hash'')) (map JStr [js ''null'', js ''true'', js '',x''])"
  by (rule invoke_arguments_as_text) (simp add: js_def)

text \<open>
  The first call that fails fails the whole batch: later calls are not made, and the answer carries
  the message of that failure only.
\<close>

theorem invoke_first_failure:
  assumes "invoke_map E xs st = (t, Inr rs)" "invoke_entry E c t = (u, Inl e)"
  shows "invoke_map E (xs @ c # ys) st = (u, Inl e)
      \<and> invoke_finish W E (invoke_map E (xs @ c # ys) st) = invoke_fail (message_of (engine_texts W) e)"
proof -
  have "invoke_map E (xs @ c # ys) st = (u, Inl e)"
    using assms
  proof (induction xs arbitrary: st rs)
    case (Cons x xs)
    then obtain s r rs' where "invoke_entry E x st = (s, Inr r)" "invoke_map E xs s = (t, Inr rs')"
      by (auto simp: bindC_Inr_iff)
    then show ?case using Cons.IH [of s rs'] assms(2) by (simp add: bindC_def)
  qed (simp add: bindC_def)
  then show ?thesis by (simp add: invoke_finish_def)
qed

theorem invoke_first_failure_witness:
  "invoke_finish (demo_world [] None [] []) (demo_E (invoke_imports (demo_world [] None [] [])))
     (invoke_map (demo_E (invoke_imports (demo_world [] None [] []))) ([] @ JNull # [call_entry (js ''graphlaw_version'', [])]) demo_ready)
   = invoke_fail (js ''engine'')"
proof -
  have "invoke_entry (demo_E (invoke_imports (demo_world [] None [] []))) JNull demo_ready = (demo_ready, Inl (Fault (Undefined_base (js ''fn''))))"
    by (simp add: invoke_entry_def get_prop_def bindC_def)
  then show ?thesis
    using invoke_first_failure [of "demo_E (invoke_imports (demo_world [] None [] []))" "[]" demo_ready demo_ready "[]" JNull demo_ready
        "Fault (Undefined_base (js ''fn''))" "[call_entry (js ''graphlaw_version'', [])]"
        "demo_world [] None [] []"]
    by (simp add: demo_texts_def)
qed

text \<open>
  Whatever the command line, the files and the module, the process prints one JSON object with a
  boolean \<open>ok\<close> and exits with status 0; the only hypothesis is that no module has more than 2^53 exports.
\<close>

theorem invoke_responds:
  assumes "invoke_accepts W"
  shows "\<exists>out kvs b. invoke_main W = Exit out 0 \<and> json_parse out = Inr (JObj kvs)
      \<and> map_of kvs (js ''ok'') = Some (JBool b)"
  using invoke.caller_decodes [OF assms] by simp

theorem invoke_responds_witness:
  "\<exists>out kvs b. invoke_main (demo_world [] None [] []) = Exit out 0 \<and> json_parse out = Inr (JObj kvs)
      \<and> map_of kvs (js ''ok'') = Some (JBool b)"
  by (rule invoke_responds)
     (simp add: invoke_accepts_def demo_world_def demo_module_def demo_exports_def)

end
