(* ===== verification/Host_Peer.thy ===== *)
theory Host_Peer
  imports Demo_World
begin

text \<open>
  \<open>priv/graphlaw/graphlaw_host_peer.mjs\<close>: one call, from a request file or standard input, against
  an allowlist; arguments of any JSON type are converted with \<open>String\<close>.
\<close>

section \<open>The process\<close>

definition peer_allowed :: "jstr list" where
  "peer_allowed = map js [''graph_hash'', ''run_hooks'', ''graphlaw_version'', ''blake3_hex'', ''validate_all'']"

definition peer_fail :: "jstr \<Rightarrow> outcome" where
  "peer_fail error = Exit (stringify (JObj [ok_field False, (js ''error'', JStr error)])) 0"

definition peer_imports :: import_obj where
  "peer_imports = two_imports fill_deterministic"

definition peer_putStr :: "'s exports_obj \<Rightarrow> jstr \<Rightarrow> ('s inst, i32 \<times> i32) comp" where
  "peer_putStr E s = (let b = utf8_encode s in put_bytes E (length b) b)"

text \<open>\<open>for (const s of args)\<close>: an array, or a string by code points; anything else throws.\<close>

definition peer_iterate :: "jv \<Rightarrow> exn + jv list" where
  "peer_iterate args =
     (case args of
        JArr vs \<Rightarrow> Inr vs
      | JStr s \<Rightarrow> Inr (map (\<lambda>c. JStr (units_of_cp c)) (code_points s))
      | _ \<Rightarrow> Inl (Fault Not_iterable))"

text \<open>The exchange: the arguments are iterated after the return area has been reserved.\<close>

definition peer_exchange :: "'s exports_obj \<Rightarrow> jstr \<Rightarrow> jv \<Rightarrow> ('s inst, jstr) comp" where
  "peer_exchange E fn args =
     bindC (call_export E sp_name [-16]) (\<lambda>rp.
     bindC (liftC (peer_iterate args)) (\<lambda>vs.
     bindC (push_args (\<lambda>s. bindC (liftC (to_string s)) (peer_putStr E)) vs) (\<lambda>flat.
     finish_call E fn rp flat)))"

definition peer_answer :: "'s world \<Rightarrow> 's inst \<times> (exn + jstr) \<Rightarrow> outcome" where
  "peer_answer W r =
     (case snd r of
        Inl e \<Rightarrow> peer_fail (js ''call failed: '' @ message_of (engine_texts W) e)
      | Inr out \<Rightarrow> Exit (stringify (JObj [ok_field True, (js ''result'', JStr out)])) 0)"

definition index_of :: "'a \<Rightarrow> 'a list \<Rightarrow> nat option" where
  "index_of x xs = (if x \<in> set xs then Some (length (takeWhile (\<lambda>y. y \<noteq> x) xs)) else None)"

text \<open>\<open>fs.readFileSync(requestSource, 'utf8')\<close>: the file after the flag, else standard input.\<close>

definition peer_source :: "'s world \<Rightarrow> exn + jstr" where
  "peer_source W =
     (case index_of (js ''--request-file'') (argv W) of
        Some i \<Rightarrow>
          (case arg_at W (i + 1) of
             Some p \<Rightarrow> read_text W p
           | None \<Rightarrow> Inl (Fault (Bad_argument (js ''path''))))
      | None \<Rightarrow> map_sum id utf8_decode (stdin_bytes W))"

definition peer_invoke :: "'s world \<Rightarrow> jstr \<Rightarrow> jstr \<Rightarrow> jv \<Rightarrow> exn + outcome" where
  "peer_invoke W wasmPath fn args =
     (case read_file W wasmPath of
        Inl e \<Rightarrow> Inl e
      | Inr bytes \<Rightarrow>
          (case instantiate_bytes W bytes peer_imports of
             Inl e \<Rightarrow> Inr (peer_fail (js ''instantiate failed: '' @ message_of (engine_texts W) e))
           | Inr (E, st) \<Rightarrow>
               (if \<not> is_func E fn then Inr (peer_fail (js ''export missing: '' @ fn))
                else Inr (peer_answer W (peer_exchange E fn args st)))))"

definition peer_serve :: "'s world \<Rightarrow> jstr \<Rightarrow> jv \<Rightarrow> exn + outcome" where
  "peer_serve W wasmPath request =
     (case get_prop request (js ''fn'') of
        Inl e \<Rightarrow> Inl e
      | Inr fn \<Rightarrow>
          (case get_prop request (js ''args'') of
             Inl e \<Rightarrow> Inl e
           | Inr a \<Rightarrow>
               (case fn of
                  Some (JStr f) \<Rightarrow>
                    (if f \<in> set peer_allowed then peer_invoke W wasmPath f (or_empty a)
                     else Inr (peer_fail (js ''function not allowed: '' @ f)))
                | _ \<Rightarrow>
                    (case to_string_opt fn of
                       Inl e \<Rightarrow> Inl e
                     | Inr s \<Rightarrow> Inr (peer_fail (js ''function not allowed: '' @ s))))))"

definition peer_main :: "'s world \<Rightarrow> exn + outcome" where
  "peer_main W =
     (if blank (env_wasm W) then Inr (peer_fail (js ''GRAPHLAW_WASM not set''))
      else let wasmPath = the (env_wasm W) in
      if \<not> exists_file W wasmPath then Inr (peer_fail (js ''wasm not found: '' @ wasmPath))
      else case (case peer_source W of Inl e \<Rightarrow> Inl e | Inr s \<Rightarrow> json_parse s) of
        Inl e \<Rightarrow> Inr (peer_fail (js ''bad request json: '' @ message_of (engine_texts W) e))
      | Inr request \<Rightarrow> peer_serve W wasmPath request)"

text \<open>\<open>main().catch((e) => fail(e.message))\<close>\<close>

definition peer_process :: "'s world \<Rightarrow> outcome" where
  "peer_process W =
     (case peer_main W of
        Inl e \<Rightarrow> peer_fail (message_of (engine_texts W) e)
      | Inr out \<Rightarrow> out)"

section \<open>Contract\<close>

lemma peer_fail_response [intro, simp]: "is_response [] (\<lambda>_. 0) (peer_fail message)"
  unfolding peer_fail_def by (rule responseI_bare) (simp_all add: is_digit_def)

lemma peer_answer_response [intro, simp]: "is_response [] (\<lambda>_. 0) (peer_answer W r)"
  unfolding peer_answer_def by (auto split: sum.split intro!: responseI_bare simp: is_digit_def)

lemma peer_invoke_response:
  "peer_invoke W wasmPath fn args = Inr out \<Longrightarrow> is_response [] (\<lambda>_. 0) out"
  unfolding peer_invoke_def by (auto split: sum.splits if_splits)

lemma peer_serve_response:
  "peer_serve W wasmPath request = Inr out \<Longrightarrow> is_response [] (\<lambda>_. 0) out"
  unfolding peer_serve_def
  by (auto split: sum.splits option.splits jv.splits if_splits dest: peer_invoke_response)

interpretation peer: responder peer_process "\<lambda>_. True" "[]" "\<lambda>_. 0"
proof
  fix W :: "'s world"
  show "is_response [] (\<lambda>_. 0) (peer_process W)"
    unfolding peer_process_def peer_main_def Let_def
    by (auto split: sum.split dest: peer_serve_response)
qed simp

section \<open>Answers\<close>

lemma peer_putArg_string:
  "bindC (liftC (to_string (JStr s))) (peer_putStr E) = put_bytes E (length (utf8_encode s)) (utf8_encode s)"
  by (simp add: fun_eq_iff peer_putStr_def Let_def bindC_def)

lemma peer_exchange_array:
  "peer_exchange E fn (JArr (map JStr ss)) =
     string_call E (\<lambda>s. put_bytes E (length (utf8_encode s)) (utf8_encode s)) fn ss"
proof -
  have "push_args (\<lambda>s. bindC (liftC (to_string s)) (peer_putStr E)) (map JStr ss)
      = push_args (\<lambda>s. put_bytes E (length (utf8_encode s)) (utf8_encode s)) ss"
    unfolding push_args_map peer_putArg_string by (rule refl)
  then show ?thesis
    by (simp add: peer_exchange_def peer_iterate_def string_call_def)
qed

text \<open>
  C12: for the JSON text of one allowlisted call, in the file after \<open>--request-file\<close> or on standard input, the
  process prints \<open>{"ok":true,"result":...}\<close> with the module's answer on exactly the argument strings.
\<close>

theorem peer_answers:
  assumes "env_wasm W = Some path" "offers W path peer_imports sv"
    and "peer_source W = Inr (stringify (call_entry c))"
    and "fst c \<in> set peer_allowed" "answerable sv c"
  shows "peer_process W = Exit (stringify (JObj [ok_field True,
      (js ''result'', JStr (service_answer sv c))])) 0"
proof -
  obtain b E st where wasm: "exists_file W path" "path \<noteq> []" "read_file W path = Inr b"
    "instantiate_bytes W b peer_imports = Inr (E, st)" "serves E sv" "sv_idle sv st"
    using assms(2) by (rule offersE)
  obtain t where "peer_exchange E (fst c) (JArr (map JStr (snd c))) st = (t, Inr (service_answer sv c))"
    using exchange_answers [OF wasm(5,6), of "fst c" "snd c" length] assms(5)
    by (auto simp: peer_exchange_array)
  moreover have "is_func E (fst c)"
    using answerable_func [OF wasm(5), of "fst c" "snd c"] assms(5) by simp
  ultimately have "peer_invoke W path (fst c) (JArr (map JStr (snd c))) = Inr (Exit (stringify
      (JObj [ok_field True, (js ''result'', JStr (service_answer sv c))])) 0)"
    using wasm by (simp add: peer_invoke_def peer_answer_def)
  then show ?thesis
    using assms(1,3,4) wasm
    by (simp add: peer_process_def peer_main_def blank_def json_parse_stringify peer_serve_def)
qed

theorem peer_answers_witness:
  "peer_process (demo_world [js ''node'', js ''peer'', js ''--request-file'', js ''r''] (Some (js ''w''))
       [(js ''w'', demo_wasm), (js ''r'', utf8_encode (stringify (call_entry (js ''graph_hash'', [js ''ttl'']))))] [])
   = Exit (stringify (JObj [ok_field True, (js ''result'', str ''ttl'')])) 0"
  by (subst peer_answers [where path = "js ''w''" and c = "(js ''graph_hash'', [js ''ttl''])" and sv = demo_service])
     (simp_all add: demo_offers demo_answerable demo_answer peer_allowed_def peer_source_def index_of_def
       arg_at_def read_text_def utf8_roundtrip stringify_well_formed)

section \<open>The allowlist\<close>

lemma tracks_peer_exchange:
  "insert fn abi_names \<subseteq> P \<Longrightarrow> tracks P (peer_exchange (traced E) fn args) (peer_exchange E fn args)"
  unfolding peer_exchange_def peer_putStr_def by (intro tracks_intros) auto

text \<open>
  C27: a request for anything but an allowlisted name is refused before the module is read or compiled: the
  outcome is the same whatever the files and the compiler are, and it is a refusal (or the error of
  printing a name that has no text).
\<close>

theorem peer_refuses:
  assumes "get_prop request (js ''fn'') = Inr fn" "\<forall>f \<in> set peer_allowed. fn \<noteq> Some (JStr f)"
  shows "peer_serve (W\<lparr>read_file := files, compile_wasm := compiler\<rparr>) path request = peer_serve W path request
      \<and> (case to_string_opt fn of
           Inl e \<Rightarrow> peer_serve W path request = Inl e
         | Inr s \<Rightarrow> peer_serve W path request = Inr (peer_fail (js ''function not allowed: '' @ s)))"
proof -
  obtain a where "get_prop request (js ''args'') = Inr a"
    using assms(1) by (cases request) (auto simp: get_prop_def)
  then have "peer_serve V path request =
      (case to_string_opt fn of
         Inl e \<Rightarrow> Inl e
       | Inr s \<Rightarrow> Inr (peer_fail (js ''function not allowed: '' @ s)))" for V :: "'a world"
    using assms
    by (auto simp: peer_serve_def to_string_opt_def split: option.split jv.split sum.split)
  then show ?thesis by (simp split: sum.split)
qed

theorem peer_refuses_witness:
  "peer_serve (demo_world [] None [] []\<lparr>read_file := (\<lambda>p. Inr []), compile_wasm := (\<lambda>b. Inr demo_module)\<rparr>) (js ''w'')
      (call_entry (js ''__wbindgen_export4'', []))
   = Inr (peer_fail (js ''function not allowed: __wbindgen_export4''))"
  using peer_refuses [where request = "call_entry (js ''__wbindgen_export4'', [])"
      and fn = "Some (str ''__wbindgen_export4'')" and W = "demo_world [] None [] []"
      and files = "\<lambda>p. Inr []" and compiler = "\<lambda>b. Inr demo_module" and path = "js ''w''"]
  by (simp add: peer_allowed_def to_string_opt_def flip: js_append)

text \<open>
  The exchange with an allowlisted function calls nothing of the module but that function and the
  three of the string protocol, whatever the arguments are; recording the calls changes no result.
\<close>

theorem peer_allowlist:
  "fst ` set (log_of (fst (peer_exchange (traced E) fn args (logged st [])))) \<subseteq> insert fn abi_names
   \<and> snd (peer_exchange (traced E) fn args (logged st [])) = snd (peer_exchange E fn args st)"
  using tracks_fresh [OF tracks_peer_exchange [of fn "insert fn abi_names" E args], of st] by blast


end
