(* ===== verification/Host_Modular.thy ===== *)
theory Host_Modular
  imports Demo_World
begin

text \<open>
  \<open>priv/graphlaw/host/graphlaw_host.mjs\<close>: a batch of calls with typed failures. The import object
  is built from what the module declares, unknown functions getting a stub that throws; the exit
  status tells success (0) from failure (1).
\<close>

section \<open>The import object\<close>

datatype import_tag = Drop_tag | Random_tag | Stub_tag

definition random_prefix :: jstr where
  "random_prefix = js ''__wbg_getRandomValues_''"

definition starts_with :: "jstr \<Rightarrow> jstr \<Rightarrow> bool" where
  "starts_with p s \<longleftrightarrow> take (length p) s = p"

definition qual_name :: "jstr \<Rightarrow> jstr \<Rightarrow> jstr" where
  "qual_name m k = m @ js ''::'' @ k"

text \<open>The loop over the declared imports: the table, latest entry first, and \<open>unknownImport\<close>.\<close>

fun modular_build ::
  "(jstr \<times> jstr \<times> jstr) list \<Rightarrow> ((jstr \<times> jstr) \<times> import_tag) list \<times> jstr option
     \<Rightarrow> ((jstr \<times> jstr) \<times> import_tag) list \<times> jstr option" where
  "modular_build [] acc = acc"
| "modular_build ((m, k, kind) # decls) (tbl, unknown) =
     (if k = drop_name then modular_build decls (((m, k), Drop_tag) # tbl, unknown)
      else if starts_with random_prefix k
      then modular_build decls (((m, k), Random_tag) # tbl, unknown)
      else if kind = js ''function''
      then modular_build decls (((m, k), Stub_tag) # tbl, Some (qual_name m k))
      else modular_build decls (tbl, unknown))"

text \<open>
  \<open>globalThis.crypto.getRandomValues(view)\<close> refuses more than 65536 bytes. The declaration
  \<open>let inst;\<close> has run when the module is instantiated, so an import called by the module's start
  function reads \<open>undefined.exports\<close>.
\<close>

definition modular_random :: "'s world \<Rightarrow> import_fn" where
  "modular_random W =
     fill_view undefined_inst
       (\<lambda>l n. if 65536 < n then Inl (Fault Quota_exceeded)
                      else Inr (map (entropy W (lm_rng l)) [0..<n]))"

text \<open>
  The stub reads the variable \<open>unknownImport\<close> when it is called, which is after the loop.
\<close>

definition modular_stub :: "jstr option \<Rightarrow> import_fn" where
  "modular_stub unknown args l =
     (l, Inl (Thrown (js ''unstubbed host import ''
                      @ (case unknown of None \<Rightarrow> js ''null'' | Some u \<Rightarrow> u))))"

definition modular_imports :: "'s world \<Rightarrow> (jstr \<times> jstr \<times> jstr) list \<Rightarrow> import_obj" where
  "modular_imports W decls m k =
     (let (tbl, unknown) = modular_build decls ([], None) in
      case map_of tbl (m, k) of
        None \<Rightarrow> None
      | Some Drop_tag \<Rightarrow> Some drop_ref
      | Some Random_tag \<Rightarrow> Some (modular_random W)
      | Some Stub_tag \<Rightarrow> Some (modular_stub unknown))"

section \<open>The process\<close>

definition newline :: jstr where "newline = [10]"

definition modular_fail :: "string \<Rightarrow> jstr \<Rightarrow> outcome" where
  "modular_fail code' message =
     Exit (stringify (JObj [ok_field False, (js ''code'', str code'), (js ''message'', JStr message)])
           @ newline) 1"

definition modular_putStr :: "'s exports_obj \<Rightarrow> jv \<Rightarrow> ('s inst, i32 \<times> i32) comp" where
  "modular_putStr E a =
     bindC (liftC (to_string a)) (\<lambda>s. let b = utf8_encode s in put_bytes E (length b) b)"

definition modular_callString :: "'s exports_obj \<Rightarrow> jstr \<Rightarrow> jv list \<Rightarrow> ('s inst, jstr) comp" where
  "modular_callString E fn strs = string_call E (modular_putStr E) fn strs"

text \<open>One turn of the loop: a failure (code and message) or the string to push.\<close>

definition modular_entry ::
  "'s world \<Rightarrow> 's exports_obj \<Rightarrow> jv \<Rightarrow> 's inst \<Rightarrow> 's inst \<times> (string \<times> jstr + jstr)" where
  "modular_entry W E c st =
     (case (if truthy c then get_prop c (js ''fn'') else Inr None) of
        Inr (Some (JStr f)) \<Rightarrow>
          (if \<not> is_func E f
           then (st, Inl (''unknown_export'', js ''wasm module does not export a function '' @ f))
           else case modular_callString E f
                  (case get_prop c (js ''args'') of Inr (Some (JArr vs)) \<Rightarrow> vs | _ \<Rightarrow> []) st of
             (st', Inr out) \<Rightarrow> (st', Inr out)
           | (st', Inl e) \<Rightarrow>
               (st', Inl (''wasm_call_failed'', f @ js '': '' @ error_text (engine_texts W) e)))
      | _ \<Rightarrow> (st, Inl (''bad_call_shape'', js ''each call must be {\"fn\": name, \"args\": [strings]}'')))"

fun modular_calls ::
  "'s world \<Rightarrow> 's exports_obj \<Rightarrow> jv list \<Rightarrow> jstr list \<Rightarrow> 's inst
     \<Rightarrow> 's inst \<times> (string \<times> jstr + jstr list)" where
  "modular_calls W E [] results st = (st, Inr results)"
| "modular_calls W E (c # calls) results st =
     (case modular_entry W E c st of
        (st', Inl failure) \<Rightarrow> (st', Inl failure)
      | (st', Inr out) \<Rightarrow> modular_calls W E calls (results @ [out]) st')"

definition modular_finish :: "'s wmodule \<Rightarrow> string \<times> jstr + jstr list \<Rightarrow> outcome" where
  "modular_finish M r =
     (case r of
        Inl (code', message) \<Rightarrow> modular_fail code' message
      | Inr results \<Rightarrow>
          Exit (stringify (JObj [ok_field True,
                  (js ''results'', JArr (map JStr results)),
                  (js ''exports'', JArr (map JStr (map fst (md_exports M)))),
                  (js ''imports'', JArr (map JStr (map (\<lambda>(m, k, kind). qual_name m k) (md_imports M))))])
                @ newline) 0)"

definition modular_serve :: "'s world \<Rightarrow> jv \<Rightarrow> jstr \<Rightarrow> outcome" where
  "modular_serve W req wasm =
     (case read_file W wasm of
        Inl e \<Rightarrow> modular_fail ''wasm_read_failed'' (error_text (engine_texts W) e)
      | Inr bytes \<Rightarrow>
          (case compile_wasm W bytes of
             Inl e \<Rightarrow> modular_fail ''wasm_compile_failed'' (error_text (engine_texts W) e)
           | Inr M \<Rightarrow>
               (case instantiate M (modular_imports W (md_imports M)) of
                  Inl e \<Rightarrow> modular_fail ''wasm_instantiate_failed'' (error_text (engine_texts W) e)
                | Inr (E, st) \<Rightarrow>
                    modular_finish M (snd (modular_calls W E
                      (case get_prop req (js ''calls'') of Inr (Some (JArr vs)) \<Rightarrow> vs | _ \<Rightarrow> [])
                      [] st)))))"

definition modular_readRequest :: "'s world \<Rightarrow> exn + jstr" where
  "modular_readRequest W =
     (case arg_at W 2 of
        Some p \<Rightarrow> read_text W p
      | None \<Rightarrow> map_sum id utf8_decode (stdin_bytes W))"

definition modular_main :: "'s world \<Rightarrow> outcome" where
  "modular_main W =
     (case modular_readRequest W of
        Inl e \<Rightarrow> modular_fail ''request_read_failed'' (error_text (engine_texts W) e)
      | Inr raw \<Rightarrow>
          (case json_parse raw of
             Inl e \<Rightarrow> modular_fail ''bad_request_json'' (error_text (engine_texts W) e)
           | Inr req \<Rightarrow>
               (case (if truthy req then get_prop req (js ''wasm'') else Inr None) of
                  Inr (Some (JStr wasm)) \<Rightarrow> modular_serve W req wasm
                | _ \<Rightarrow> modular_fail ''bad_request_shape''
                         (js ''request must be {\"wasm\": path, \"calls\": [...]}''))))"

section \<open>Contract\<close>

abbreviation modular_status :: "bool \<Rightarrow> nat" where
  "modular_status b \<equiv> if b then 0 else 1"

lemma modular_fail_response [intro, simp]:
  "is_response newline modular_status (modular_fail code' message)"
  unfolding modular_fail_def by (rule responseI) (simp_all add: is_digit_def)

lemma modular_finish_response [intro, simp]:
  "is_response newline modular_status (modular_finish M r)"
  unfolding modular_finish_def
  by (auto split: sum.split intro!: responseI simp: is_digit_def list_all_iff)

interpretation modular: responder modular_main "\<lambda>_. True" newline modular_status
proof
  fix W :: "'s world"
  show "is_response newline modular_status (modular_main W)"
    unfolding modular_main_def modular_serve_def
    by (auto split: sum.split option.split jv.split)
qed (simp add: newline_def is_ws_def)

section \<open>The import object\<close>

text \<open>What the loop does with one declaration.\<close>

definition decl_tag :: "jstr \<times> jstr \<times> jstr \<Rightarrow> import_tag option" where
  "decl_tag d = (case d of (m, k, kind) \<Rightarrow>
     if k = drop_name then Some Drop_tag
     else if starts_with random_prefix k then Some Random_tag
     else if kind = js ''function'' then Some Stub_tag else None)"

definition decl_name :: "jstr \<times> jstr \<times> jstr \<Rightarrow> jstr" where
  "decl_name d = (case d of (m, k, kind) \<Rightarrow> qual_name m k)"

abbreviation unknown_decls :: "(jstr \<times> jstr \<times> jstr) list \<Rightarrow> (jstr \<times> jstr \<times> jstr) list" where
  "unknown_decls decls \<equiv> filter (\<lambda>d. decl_tag d = Some Stub_tag) decls"

lemma modular_build_unknown:
  "snd (modular_build decls (tbl, u)) =
     (if unknown_decls decls = [] then u else Some (decl_name (last (unknown_decls decls))))"
proof (induction decls arbitrary: tbl u)
  case (Cons d decls)
  obtain m k kind where "d = (m, k, kind)" by (cases d) auto
  then show ?case using Cons by (simp add: decl_tag_def decl_name_def)
qed simp

definition key_tag :: "jstr \<Rightarrow> import_tag" where
  "key_tag k = (if k = drop_name then Drop_tag else if starts_with random_prefix k then Random_tag else Stub_tag)"

lemma decl_tag_key: "decl_tag (m, k, kind) = Some t \<Longrightarrow> t = key_tag k"
  by (auto simp: decl_tag_def key_tag_def split: if_splits)

lemma modular_build_Cons:
  "modular_build ((m, k, kind) # decls) (tbl, u) =
     (case decl_tag (m, k, kind) of
        None \<Rightarrow> modular_build decls (tbl, u)
      | Some t \<Rightarrow> modular_build decls (((m, k), t) # tbl, if t = Stub_tag then Some (qual_name m k) else u))"
  by (simp add: decl_tag_def)

lemma modular_build_table:
  "map_of (fst (modular_build decls (tbl, u))) (m, k) =
     (if \<exists>kind. (m, k, kind) \<in> set decls \<and> decl_tag (m, k, kind) \<noteq> None
      then Some (key_tag k) else map_of tbl (m, k))"
proof (induction decls arbitrary: tbl u)
  case (Cons d decls)
  obtain m' k' kind where d: "d = (m', k', kind)" by (cases d) auto
  show ?case
  proof (cases "decl_tag d")
    case None
    then have "(\<exists>kind. (m, k, kind) \<in> set (d # decls) \<and> decl_tag (m, k, kind) \<noteq> None) \<longleftrightarrow>
        (\<exists>kind. (m, k, kind) \<in> set decls \<and> decl_tag (m, k, kind) \<noteq> None)"
      by auto
    then show ?thesis using None unfolding d modular_build_Cons by (simp only: option.case Cons.IH)
  next
    case (Some t)
    note t = decl_tag_key [OF Some [unfolded d]]
    have step: "modular_build (d # decls) (tbl, u) =
        modular_build decls (((m', k'), t) # tbl, if t = Stub_tag then Some (qual_name m' k') else u)"
      using Some unfolding d modular_build_Cons by simp
    show ?thesis
    proof (cases "(m', k') = (m, k)")
      case True
      then have "\<exists>kind. (m, k, kind) \<in> set (d # decls) \<and> decl_tag (m, k, kind) \<noteq> None"
        using Some d by auto
      then show ?thesis using True t unfolding step Cons.IH by simp
    next
      case False
      then have "(\<exists>kind. (m, k, kind) \<in> set (d # decls) \<and> decl_tag (m, k, kind) \<noteq> None) \<longleftrightarrow>
          (\<exists>kind. (m, k, kind) \<in> set decls \<and> decl_tag (m, k, kind) \<noteq> None)"
        using d by auto
      moreover have "map_of (((m', k'), t) # tbl) (m, k) = map_of tbl (m, k)" using False by auto
      ultimately show ?thesis unfolding step by (simp only: Cons.IH)
    qed
  qed
qed simp

lemma modular_table_entry:
  assumes "(m, k, kind) \<in> set decls" "decl_tag (m, k, kind) \<noteq> None"
  shows "map_of (fst (modular_build decls ([], None))) (m, k) =
      Some (key_tag k)"
proof -
  have "\<exists>kind. (m, k, kind) \<in> set decls \<and> decl_tag (m, k, kind) \<noteq> None"
    using assms by blast
  then show ?thesis unfolding modular_build_table by simp
qed

text \<open>
  Every function the module declares as an import is supplied: the import object has an entry for it,
  the no-op, the random fill or a stub, so instantiation cannot fail for want of a function.
\<close>

theorem modular_imports_complete:
  assumes "(m, k, js ''function'') \<in> set decls"
  shows "\<exists>f. modular_imports W decls m k = Some f
      \<and> (k = drop_name \<longrightarrow> f = drop_ref)
      \<and> (k \<noteq> drop_name \<and> starts_with random_prefix k \<longrightarrow> f = modular_random W)"
proof -
  have "decl_tag (m, k, js ''function'') \<noteq> None" by (simp add: decl_tag_def)
  note table = modular_table_entry [OF assms this]
  obtain tbl u where "modular_build decls ([], None) = (tbl, u)" by fastforce
  then show ?thesis using table by (simp add: modular_imports_def key_tag_def)
qed

theorem modular_imports_complete_witness:
  "\<exists>f. modular_imports (demo_world [] None [] []) [(glue_name, drop_name, js ''function'')] glue_name drop_name = Some f
      \<and> (drop_name = drop_name \<longrightarrow> f = drop_ref)
      \<and> (drop_name \<noteq> drop_name \<and> starts_with random_prefix drop_name \<longrightarrow> f = modular_random (demo_world [] None [] []))"
  by (rule modular_imports_complete) simp

text \<open>
  C30: a stub blames the wrong import. Its message is built from the variable \<open>unknownImport\<close> when it is
  called, and by then that variable names the last unknown import of the module, whichever one is called.
\<close>

theorem modular_stub_blames_last:
  assumes "(m, k, js ''function'') \<in> set decls" "decl_tag (m, k, js ''function'') = Some Stub_tag"
  shows "\<exists>f. modular_imports W decls m k = Some f
      \<and> f args l = (l, Inl (Thrown (js ''unstubbed host import '' @ decl_name (last (unknown_decls decls)))))"
proof -
  have "map_of (fst (modular_build decls ([], None))) (m, k) = Some Stub_tag"
    using modular_table_entry [OF assms(1)] decl_tag_key [OF assms(2)] assms(2) by simp
  moreover have "unknown_decls decls \<noteq> []"
    using assms by (auto simp: filter_empty_conv)
  ultimately show ?thesis
    using modular_build_unknown [of decls "[]" None]
    by (auto simp: modular_imports_def modular_stub_def Let_def split_beta)
qed

text \<open>Calling \<open>env.a\<close> reports \<open>env::b\<close>.\<close>

theorem modular_stub_blames_last_witness:
  "\<exists>f. modular_imports (demo_world [] None [] []) [(js ''env'', js ''a'', js ''function''), (js ''env'', js ''b'', js ''function'')]
         (js ''env'') (js ''a'') = Some f
      \<and> f [1] (in_lin demo_ready) = (in_lin demo_ready, Inl (Thrown (js ''unstubbed host import env::b'')))"
proof -
  let ?decls = "[(js ''env'', js ''a'', js ''function''), (js ''env'', js ''b'', js ''function'')]"
  have tag: "decl_tag (js ''env'', js [c], js ''function'') = Some Stub_tag" for c
    by (simp add: decl_tag_def starts_with_def random_prefix_def js_Cons)
  have "js ''unstubbed host import '' @ decl_name (last (unknown_decls ?decls)) = js ''unstubbed host import env::b''"
    by (simp add: tag decl_name_def qual_name_def flip: js_append)
  then show ?thesis
    using modular_stub_blames_last [of "js ''env''" "js ''a''" ?decls "demo_world [] None [] []" "[1]" "in_lin demo_ready"] tag by simp
qed

text \<open>
  The random fill refuses more than 65536 bytes (the quota of \<open>getRandomValues\<close>) and leaves the memory
  alone; up to that size inside the memory it overwrites exactly the bytes asked for.
\<close>

theorem modular_random_quota:
  assumes "lm_bound l = Bound" "0 \<le> sint ptr" "0 \<le> sint len" "sint ptr + sint len \<le> int (length (lm_bytes l))"
  shows "if sint len \<le> 65536
     then \<exists>l' bs. modular_random W [ptr, len] l = (l', Inr ()) \<and> length bs = nat (sint len)
        \<and> lm_bytes l' = take (nat (sint ptr)) (lm_bytes l) @ bs @ drop (nat (sint ptr) + nat (sint len)) (lm_bytes l)
     else modular_random W [ptr, len] l = (l, Inl (Fault Quota_exceeded))"
  using assms by (auto simp: modular_random_def fill_view_def arg_int_def put_at_def Let_def)

theorem modular_random_quota_witness:
  "\<exists>l' bs. modular_random (demo_world [] None [] []) [1, 2] \<lparr>lm_bytes = [1, 2, 3, 4], lm_bound = Bound, lm_rng = 0\<rparr> = (l', Inr ())
      \<and> length bs = 2 \<and> lm_bytes l' = [1] @ bs @ [4]"
  using modular_random_quota [of "\<lparr>lm_bytes = [1, 2, 3, 4], lm_bound = Bound, lm_rng = 0\<rparr>" 1 2 "demo_world [] None [] []"]
  by simp

section \<open>Answers\<close>

lemma modular_putStr_string: "modular_putStr E (JStr s) = put_bytes E (length (utf8_encode s)) (utf8_encode s)"
  by (simp add: fun_eq_iff modular_putStr_def Let_def)

lemma modular_entry_answers:
  assumes "serves E sv" "sv_idle sv st" "answerable sv c"
  shows "\<exists>t. modular_entry W E (call_entry c) st = (t, Inr (service_answer sv c)) \<and> sv_idle sv t"
proof -
  obtain t where "modular_callString E (fst c) (map JStr (snd c)) st = (t, Inr (service_answer sv c))"
    "sv_idle sv t"
    using exchange_answers [OF assms(1,2), of "fst c" "snd c" length] assms(3)
    by (auto simp: modular_callString_def string_call_map modular_putStr_string)
  moreover have "is_func E (fst c)"
    using answerable_func [OF assms(1), of "fst c" "snd c"] assms(3) by simp
  ultimately show ?thesis by (simp add: modular_entry_def)
qed

lemma modular_calls_answers:
  assumes "serves E sv" "sv_idle sv st" "list_all (answerable sv) cs"
  shows "\<exists>t. modular_calls W E (map call_entry cs) rs st = (t, Inr (rs @ map (service_answer sv) cs))
      \<and> sv_idle sv t"
  using assms(2-)
proof (induction cs arbitrary: st rs)
  case (Cons c cs)
  have c: "answerable sv c" and cs: "list_all (answerable sv) cs" using Cons.prems(2) by simp_all
  obtain t where t: "modular_entry W E (call_entry c) st = (t, Inr (service_answer sv c))" "sv_idle sv t"
    using modular_entry_answers [OF assms(1) Cons.prems(1) c] by blast
  show ?case using Cons.IH [OF t(2) cs, of "rs @ [service_answer sv c]"] t(1) by simp
qed simp

definition modular_request :: "jstr \<Rightarrow> (jstr \<times> jstr list) list \<Rightarrow> jv" where
  "modular_request path cs = JObj [(js ''wasm'', JStr path), (js ''calls'', JArr (map call_entry cs))]"

lemma plain_modular_request: "plain (modular_request path cs)"
proof -
  have "own_order [js ''wasm'', js ''calls'']" by (rule own_order_words) (simp_all add: is_digit_def)
  then show ?thesis by (simp add: modular_request_def list_all_iff)
qed

text \<open>
  C8: for the JSON text of a batch of calls, in the file of the command line or on standard input, the
  process exits with status 0 after one line with the answers in request order and the names the module
  exports and imports.
\<close>

theorem modular_answers:
  assumes "modular_readRequest W = Inr (stringify (modular_request path cs))"
    and "read_file W path = Inr b" "compile_wasm W b = Inr M"
    and "offers W path (modular_imports W (md_imports M)) sv" "list_all (answerable sv) cs"
  shows "modular_main W = Exit (stringify (JObj [ok_field True,
      (js ''results'', JArr (map (\<lambda>c. JStr (service_answer sv c)) cs)),
      (js ''exports'', JArr (map (\<lambda>x. JStr (fst x)) (md_exports M))),
      (js ''imports'', JArr (map (\<lambda>d. JStr (decl_name d)) (md_imports M)))]) @ newline) 0"
proof -
  obtain E st where wasm: "instantiate M (modular_imports W (md_imports M)) = Inr (E, st)"
    "serves E sv" "sv_idle sv st"
    using assms(2-4) by (auto simp: offers_def load_wasm_def instantiate_bytes_def split: sum.splits)
  obtain t where "modular_calls W E (map call_entry cs) [] st = (t, Inr (map (service_answer sv) cs))"
    using modular_calls_answers [OF wasm(2,3) assms(5), of W "[]"] by auto
  moreover have "(\<lambda>(m, k, kind). qual_name m k) = decl_name"
    by (simp add: fun_eq_iff decl_name_def)
  ultimately show ?thesis
    using assms(1-3) wasm plain_modular_request [of path cs]
    by (simp add: modular_main_def json_parse_stringify modular_request_def get_prop_def modular_serve_def
        modular_finish_def comp_def)
qed

theorem modular_answers_witness:
  "modular_main (demo_world [js ''node'', js ''host''] None [(js ''w'', demo_wasm)]
       (utf8_encode (stringify (modular_request (js ''w'') [(js ''graph_hash'', [js ''ttl''])]))))
   = Exit (stringify (JObj [ok_field True, (js ''results'', JArr [str ''ttl'']),
       (js ''exports'', JArr (map (\<lambda>x. JStr (fst x)) demo_exports)), (js ''imports'', JArr [])]) @ newline) 0"
proof -
  have M: "md_exports demo_module = demo_exports" "md_imports demo_module = []"
    by (simp_all add: demo_module_def)
  show ?thesis
    by (subst modular_answers [where path = "js ''w''" and cs = "[(js ''graph_hash'', [js ''ttl''])]"
          and sv = demo_service and b = demo_wasm and M = demo_module])
       (simp_all add: demo_offers demo_answerable demo_answer modular_readRequest_def arg_at_def
         utf8_roundtrip stringify_well_formed M)
qed

text \<open>
  C25: in every environment the process prints one line holding one JSON object with a boolean \<open>ok\<close>, and its
  exit status is 0 exactly when \<open>ok\<close> is true.
\<close>

theorem modular_always_responds:
  "\<exists>line kvs b. modular_main W = Exit (line @ [10]) (if b then 0 else 1) \<and> 10 \<notin> set line
      \<and> json_parse (line @ [10]) = Inr (JObj kvs) \<and> map_of kvs (js ''ok'') = Some (JBool b)"
proof -
  have "10 \<notin> set line" if "printable line" for line
    using that by (auto simp: printable_def)
  then show ?thesis using modular.caller_reads [of W] unfolding newline_def by blast
qed

end
