(* ===== verification/Host_Packet.thy ===== *)
theory Host_Packet
  imports Demo_World
begin

text \<open>
  \<open>priv/graphlaw_host/graphlaw_host.mjs\<close>: the long-lived host. Requests and responses are frames, a
  big-endian length of four bytes and that many bytes of UTF-8 JSON, on standard input and output;
  standard input arrives in chunks of any size. The instance lives as long as the process.
\<close>

section \<open>Start\<close>

text \<open>What this host asks of Node beyond the other hosts' world.\<close>

record 's packet_world = "'s world" +
  sha256_hex :: "byte list \<Rightarrow> jstr"
  version_v8 :: "jstr option"
  version_jsc :: "jstr option"
  native_text :: "jstr \<Rightarrow> jstr"   \<comment> \<open>the text of a built-in function\<close>

text \<open>The constants of a running host.\<close>

record 's packet_host =
  ph_exports :: "'s exports_obj"
  ph_digest :: jstr
  ph_path :: jstr
  ph_engine :: jstr
  ph_texts :: texts
  ph_native :: "jstr \<Rightarrow> jstr"

datatype life = Alive | Exited nat | Crashed exn

record 's packet_state =
  ps_inst :: "'s inst"
  ps_buffer :: "byte list"
  ps_out :: "byte list"
  ps_life :: life

text \<open>A start that fails: refused with a line on standard error, or an exception nobody catches.\<close>

datatype 's startup =
    Refused jstr nat
  | Died exn
  | Serving "'s packet_host" "'s packet_state"

definition packet_imports :: import_obj where
  "packet_imports = two_imports fill_deterministic"

definition engineIdentity :: "jstr option \<Rightarrow> jstr option \<Rightarrow> jstr" where
  "engineIdentity v8 jsc =
     (if \<not> blank v8 then js ''v8-'' @ the v8
      else if \<not> blank jsc then js ''javascriptcore-'' @ the jsc
      else js ''unknown'')"

definition packet_start :: "'s packet_world \<Rightarrow> 's startup" where
  "packet_start W =
     (if blank (arg_at (world.truncate W) 2)
      then Refused (js ''graphlaw_host: missing wasm path argument'' @ [10]) 2
      else let path = the (arg_at (world.truncate W) 2) in
      case read_file W path of
        Inl e \<Rightarrow> Died e
      | Inr bytes \<Rightarrow>
          (case instantiate_bytes (world.truncate W) bytes packet_imports of
             Inl e \<Rightarrow> Died e
           | Inr (E, st) \<Rightarrow>
               Serving
                 \<lparr>ph_exports = E, ph_digest = sha256_hex W bytes, ph_path = path,
                  ph_engine = engineIdentity (version_v8 W) (version_jsc W),
                  ph_texts = engine_texts W, ph_native = native_text W\<rparr>
                 \<lparr>ps_inst = st, ps_buffer = [], ps_out = [], ps_life = Alive\<rparr>))"

section \<open>Calls\<close>

text \<open>
  \<open>ARITY[fn]\<close>: an own entry, a property inherited from \<open>Object.prototype\<close> (its text is what a
  message prints), or undefined.
\<close>

datatype arity = No_entry | Count nat | Inherited jstr

definition arity_table :: "(jstr \<times> nat) list" where
  "arity_table =
     [(js ''graphlaw_version'', 0), (js ''validate_all'', 5), (js ''graph_hash'', 1),
      (js ''run_hooks'', 2), (js ''blake3_hex'', 1)]"

definition object_methods :: "jstr list" where
  "object_methods = map js
     [''constructor'', ''hasOwnProperty'', ''isPrototypeOf'', ''propertyIsEnumerable'',
      ''toLocaleString'', ''toString'', ''valueOf'', ''__defineGetter__'', ''__defineSetter__'',
      ''__lookupGetter__'', ''__lookupSetter__'']"

definition arity_of :: "(jstr \<Rightarrow> jstr) \<Rightarrow> jstr \<Rightarrow> arity" where
  "arity_of native k =
     (case map_of arity_table k of
        Some n \<Rightarrow> Count n
      | None \<Rightarrow>
          (if k = js ''__proto__'' then Inherited (js ''[object Object]'')
           else if k \<in> set object_methods then Inherited (native k)
           else No_entry))"

definition packet_putString :: "'s exports_obj \<Rightarrow> jv \<Rightarrow> ('s inst, i32 \<times> i32) comp" where
  "packet_putString E a =
     bindC (liftC (to_string a)) (\<lambda>s.
       let b = utf8_encode s in put_bytes E (max (length b) 1) b)"

text \<open>\<open>for (const arg of args)\<close>\<close>

definition packet_iterate :: "jv option \<Rightarrow> exn + jv list" where
  "packet_iterate args =
     (case args of
        Some (JArr vs) \<Rightarrow> Inr vs
      | Some (JStr s) \<Rightarrow> Inr (map (\<lambda>c. JStr (units_of_cp c)) (code_points s))
      | _ \<Rightarrow> Inl (Fault Not_iterable))"

definition packet_exchange ::
  "'s exports_obj \<Rightarrow> jstr \<Rightarrow> jv option \<Rightarrow> ('s inst, jstr) comp" where
  "packet_exchange E fn args =
     bindC (call_export E sp_name [-16]) (\<lambda>rp.
     bindC (liftC (packet_iterate args)) (\<lambda>vs.
     bindC (push_args (packet_putString E) vs) (\<lambda>flat.
     finish_call E fn rp flat)))"

text \<open>The two guards: the message of the error thrown before anything is called.\<close>

definition arity_mismatch :: "jstr \<Rightarrow> jstr \<Rightarrow> jv option \<Rightarrow> exn" where
  "arity_mismatch k expected len =
     (case to_string_opt len of
        Inl e \<Rightarrow> e
      | Inr got \<Rightarrow>
          Thrown (js ''arity mismatch for '' @ k @ js '': expected '' @ expected @ js '', got '' @ got))"

definition arity_guard :: "(jstr \<Rightarrow> jstr) \<Rightarrow> jstr \<Rightarrow> jv option \<Rightarrow> exn + unit" where
  "arity_guard native k args =
     (case arity_of native k of
        No_entry \<Rightarrow> Inl (Thrown (js ''unknown graphlaw function: '' @ k))
      | Count n \<Rightarrow>
          (case length_prop args of
             Inl e \<Rightarrow> Inl e
           | Inr len \<Rightarrow>
               (if len = Some (JNum (NInt (int n))) then Inr ()
                else Inl (arity_mismatch k (nat_text n) len)))
      | Inherited text \<Rightarrow>
          (case length_prop args of Inl e \<Rightarrow> Inl e | Inr len \<Rightarrow> Inl (arity_mismatch k text len)))"

definition callGraphLaw ::
  "'s packet_host \<Rightarrow> jv option \<Rightarrow> jv option \<Rightarrow> ('s inst, jstr) comp" where
  "callGraphLaw H fn args =
     bindC (liftC (to_string_opt fn)) (\<lambda>k.
     bindC (liftC (arity_guard (ph_native H) k args)) (\<lambda>_.
     packet_exchange (ph_exports H) k args))"

section \<open>Requests and responses\<close>

definition packet_id :: "jv option \<Rightarrow> (jstr \<times> jv) list" where
  "packet_id i = (case i of None \<Rightarrow> [] | Some v \<Rightarrow> [(js ''id'', v)])"

definition packet_ok :: "jv option \<Rightarrow> jstr \<Rightarrow> jv" where
  "packet_ok i result = JObj (packet_id i @ [ok_field True, (js ''result'', JStr result)])"

definition packet_error :: "jv \<Rightarrow> jstr \<Rightarrow> jv" where
  "packet_error i message = JObj [(js ''id'', i), ok_field False, (js ''error'', JStr message)]"

definition packet_descriptor :: "'s packet_host \<Rightarrow> jstr" where
  "packet_descriptor H =
     stringify (JObj [(js ''wasm_digest'', JStr (ph_digest H)), (js ''wasm_path'', JStr (ph_path H)),
                      (js ''engine'', JStr (ph_engine H))])"

definition packet_handle :: "'s packet_host \<Rightarrow> jv \<Rightarrow> ('s inst, jv) comp" where
  "packet_handle H request =
     bindC (liftC (get_prop request (js ''op''))) (\<lambda>op.
     bindC (liftC (get_prop request (js ''id''))) (\<lambda>i.
       if op = Some (str ''descriptor'') then returnC (packet_ok i (packet_descriptor H))
       else if op = Some (str ''call'') then
         bindC (liftC (get_prop request (js ''fn''))) (\<lambda>fn.
         bindC (liftC (get_prop request (js ''args''))) (\<lambda>args.
         bindC (callGraphLaw H fn args) (\<lambda>result. returnC (packet_ok i result))))
       else if op = Some (str ''close'') then returnC (packet_ok i (js ''closing''))
       else bindC (liftC (to_string_opt op)) (\<lambda>s. throwC (Thrown (js ''unknown op: '' @ s)))))"

section \<open>Frames\<close>

definition be32_bytes :: "nat \<Rightarrow> byte list" where
  "be32_bytes n =
     [of_nat (n div 0x1000000 mod 0x100), of_nat (n div 0x10000 mod 0x100),
      of_nat (n div 0x100 mod 0x100), of_nat (n mod 0x100)]"

definition be32_value :: "byte list \<Rightarrow> nat" where
  "be32_value bs = foldl (\<lambda>a b. a * 0x100 + unat b) 0 bs"

definition frame :: "byte list \<Rightarrow> byte list" where
  "frame payload = be32_bytes (length payload) @ payload"

text \<open>\<open>writeFrame\<close>: \<open>writeUInt32BE\<close> refuses a length of more than 32 bits.\<close>

definition writeFrame :: "jv \<Rightarrow> exn + byte list" where
  "writeFrame obj =
     (let payload = utf8_encode (stringify obj) in
      if 2 ^ 32 \<le> length payload then Inl (Fault Out_of_range) else Inr (frame payload))"

text \<open>One frame off the front of the buffer.\<close>

definition packet_take :: "byte list \<Rightarrow> (byte list \<times> byte list) option" where
  "packet_take buffer =
     (if length buffer < 4 then None
      else let len = be32_value (take 4 buffer) in
      if length buffer < 4 + len then None
      else Some (take len (drop 4 buffer), drop (4 + len) buffer))"

text \<open>A write outside every \<open>try\<close>.\<close>

definition packet_write :: "exn + byte list \<Rightarrow> 's packet_state \<Rightarrow> 's packet_state" where
  "packet_write w st =
     (case w of
        Inl e \<Rightarrow> st\<lparr>ps_life := Crashed e\<rparr>
      | Inr bytes \<Rightarrow> st\<lparr>ps_out := ps_out st @ bytes\<rparr>)"

text \<open>\<open>request.id ?? -1\<close>\<close>

definition reply_id :: "jv option \<Rightarrow> jv" where
  "reply_id i = (case i of None \<Rightarrow> JNum (NInt (-1)) | Some v \<Rightarrow> if v = JNull then JNum (NInt (-1)) else v)"

text \<open>The \<open>catch\<close> clause reads the id, which throws again when the request is null.\<close>

definition packet_catch :: "'s packet_host \<Rightarrow> jv \<Rightarrow> exn \<Rightarrow> 's packet_state \<Rightarrow> 's packet_state" where
  "packet_catch H request e st =
     (case get_prop request (js ''id'') of
        Inl e' \<Rightarrow> st\<lparr>ps_life := Crashed e'\<rparr>
      | Inr i \<Rightarrow>
          packet_write (writeFrame (packet_error (reply_id i) (message_of (ph_texts H) e))) st)"

definition packet_request :: "'s packet_host \<Rightarrow> jv \<Rightarrow> 's packet_state \<Rightarrow> 's packet_state" where
  "packet_request H request st =
     (case packet_handle H request (ps_inst st) of
        (inst', Inl e) \<Rightarrow> packet_catch H request e (st\<lparr>ps_inst := inst'\<rparr>)
      | (inst', Inr response) \<Rightarrow>
          (case writeFrame response of
             Inl e \<Rightarrow> packet_catch H request e (st\<lparr>ps_inst := inst'\<rparr>)
           | Inr bytes \<Rightarrow>
               st\<lparr>ps_inst := inst', ps_out := ps_out st @ bytes,
                  ps_life := (if get_prop request (js ''op'') = Inr (Some (str ''close''))
                              then Exited 0 else Alive)\<rparr>))"

definition packet_payload :: "'s packet_host \<Rightarrow> byte list \<Rightarrow> 's packet_state \<Rightarrow> 's packet_state" where
  "packet_payload H payload st =
     (case json_parse (utf8_decode payload) of
        Inl e \<Rightarrow>
          packet_write
            (writeFrame (packet_error (JNum (NInt (-1)))
               (js ''malformed request: '' @ message_of (ph_texts H) e))) st
      | Inr request \<Rightarrow> packet_request H request st)"

lemma packet_take_length: "packet_take b = Some (p, r) \<Longrightarrow> length r < length b"
  by (auto simp: packet_take_def Let_def split: if_splits)

lemma packet_write_buffer [simp]: "ps_buffer (packet_write w st) = ps_buffer st"
  by (simp add: packet_write_def split: sum.split)

lemma packet_catch_buffer [simp]: "ps_buffer (packet_catch H q e st) = ps_buffer st"
  by (simp add: packet_catch_def split: sum.split)

lemma packet_request_buffer [simp]: "ps_buffer (packet_request H q st) = ps_buffer st"
  by (simp add: packet_request_def split: sum.split prod.split)

lemma packet_payload_buffer [simp]: "ps_buffer (packet_payload H p st) = ps_buffer st"
  by (simp add: packet_payload_def split: sum.split)

text \<open>The \<open>for (;;)\<close> of the data handler, which ends with the process when that exits.\<close>

function packet_drain :: "'s packet_host \<Rightarrow> 's packet_state \<Rightarrow> 's packet_state" where
  "packet_drain H st =
     (if ps_life st \<noteq> Alive then st
      else case packet_take (ps_buffer st) of
        None \<Rightarrow> st
      | Some (payload, rest) \<Rightarrow>
          packet_drain H (packet_payload H payload (st\<lparr>ps_buffer := rest\<rparr>)))"
  by pat_completeness auto
termination
  by (relation "measure (\<lambda>(H, st). length (ps_buffer st))") (auto dest: packet_take_length)

declare packet_drain.simps [simp del]

text \<open>The events: a chunk of standard input, and its end.\<close>

definition packet_data :: "'s packet_host \<Rightarrow> byte list \<Rightarrow> 's packet_state \<Rightarrow> 's packet_state" where
  "packet_data H chunk st =
     (if ps_life st = Alive then packet_drain H (st\<lparr>ps_buffer := ps_buffer st @ chunk\<rparr>) else st)"

definition packet_end :: "'s packet_state \<Rightarrow> 's packet_state" where
  "packet_end st = (if ps_life st = Alive then st\<lparr>ps_life := Exited 0\<rparr> else st)"

definition packet_feed :: "'s packet_host \<Rightarrow> byte list list \<Rightarrow> 's packet_state \<Rightarrow> 's packet_state" where
  "packet_feed H chunks st = fold (packet_data H) chunks st"

definition packet_session :: "'s packet_host \<Rightarrow> byte list list \<Rightarrow> 's packet_state \<Rightarrow> 's packet_state" where
  "packet_session H chunks st = packet_end (packet_feed H chunks st)"

end
