(* ===== verification/Packet_Frames.thy ===== *)
theory Packet_Frames
  imports Host_Packet
begin

text \<open>
  The framing of the long-lived host: the length header, taking a frame off the buffer as the inverse
  of framing, and the independence of the session from how standard input was cut into chunks.
\<close>

section \<open>Headers\<close>

lemma be32_value_bytes:
  assumes "n < 2 ^ 32"
  shows "be32_value (be32_bytes n) = n"
proof -
  have unat: "unat (of_nat (k mod 0x100) :: byte) = k mod 0x100" for k
    by (rule unat_of_nat_byte) simp
  have "n div 0x1000000 < 0x100" using assms by (simp add: less_mult_imp_div_less)
  then have top: "n div 0x1000000 mod 0x100 = n div 0x1000000" by simp
  have "n div 0x1000000 * 0x1000000 + n div 0x10000 mod 0x100 * 0x10000 + n div 0x100 mod 0x100 * 0x100
      + n mod 0x100 = n"
  proof -
    have "n div 0x100 * 0x100 + n mod 0x100 = n" by (rule div_mult_mod_eq)
    moreover have "n div 0x10000 * 0x100 + n div 0x100 mod 0x100 = n div 0x100"
      using div_mult_mod_eq [of "n div 256" 256] by (simp add: div_mult2_eq [symmetric])
    moreover have "n div 0x1000000 * 0x100 + n div 0x10000 mod 0x100 = n div 0x10000"
      using div_mult_mod_eq [of "n div 65536" 256] by (simp add: div_mult2_eq [symmetric])
    ultimately show ?thesis by linarith
  qed
  then show ?thesis
    by (simp only: be32_value_def be32_bytes_def foldl_Cons foldl_Nil unat) (simp add: top)
qed

lemma length_be32_bytes [simp]: "length (be32_bytes n) = 4"
  by (simp add: be32_bytes_def)

lemma be32_bytes_value:
  assumes "length bs = 4"
  shows "be32_bytes (be32_value bs) = bs" "be32_value bs < 2 ^ 32"
proof -
  obtain a b c d where bs: "bs = [a, b, c, d]"
    using assms by (auto simp: numeral_eq_Suc length_Suc_conv)
  have lt: "unat a < 0x100" "unat b < 0x100" "unat c < 0x100" "unat d < 0x100"
    using unsigned_less [of a] unsigned_less [of b] unsigned_less [of c] unsigned_less [of d]
    by simp_all
  define n where "n = ((unat a * 0x100 + unat b) * 0x100 + unat c) * 0x100 + unat d"
  have v: "be32_value bs = n" by (simp add: bs be32_value_def n_def)
  have d1: "n div 0x100 = (unat a * 0x100 + unat b) * 0x100 + unat c"
    and d2: "n div 0x10000 = unat a * 0x100 + unat b" and d3: "n div 0x1000000 = unat a"
    using lt unfolding n_def by auto
  have low: "x < 0x100 \<Longrightarrow> (k * 0x100 + x) mod 0x100 = x" for k x :: nat by simp
  have "n div 0x1000000 mod 0x100 = unat a" unfolding d3 using lt by simp
  moreover have "n div 0x10000 mod 0x100 = unat b" unfolding d2 by (rule low) (rule lt)
  moreover have "n div 0x100 mod 0x100 = unat c" unfolding d1 by (rule low) (rule lt)
  moreover have "n mod 0x100 = unat d" unfolding n_def by (rule low) (rule lt)
  ultimately
  show "be32_bytes (be32_value bs) = bs" unfolding v by (simp add: be32_bytes_def bs)
  show "be32_value bs < 2 ^ 32" unfolding v n_def using lt by simp
qed

section \<open>Taking a frame\<close>

lemma packet_take_iff: "packet_take b = Some (p, r) \<longleftrightarrow> b = frame p @ r \<and> length p < 2 ^ 32"
proof
  assume t: "packet_take b = Some (p, r)"
  then have len: "4 + be32_value (take 4 b) \<le> length b"
    and p: "p = take (be32_value (take 4 b)) (drop 4 b)"
    and r: "r = drop (4 + be32_value (take 4 b)) b"
    by (auto simp: packet_take_def Let_def split: if_splits)
  have four: "length (take 4 b) = 4" using len by simp
  have lp: "length p = be32_value (take 4 b)" using len p by simp
  have "b = take 4 b @ p @ r"
    unfolding p r by (metis append_take_drop_id drop_drop add.commute)
  then show "b = frame p @ r \<and> length p < 2 ^ 32"
    using be32_bytes_value [OF four] lp by (simp add: frame_def)
next
  assume "b = frame p @ r \<and> length p < 2 ^ 32"
  then show "packet_take b = Some (p, r)"
    by (auto simp: packet_take_def Let_def frame_def be32_value_bytes)
qed

lemma packet_take_frame [simp]: "length p < 2 ^ 32 \<Longrightarrow> packet_take (frame p @ r) = Some (p, r)"
  by (simp add: packet_take_iff)

lemma packet_take_append: "packet_take b = Some (p, r) \<Longrightarrow> packet_take (b @ c) = Some (p, r @ c)"
  by (simp add: packet_take_iff)

definition framed :: "byte list list \<Rightarrow> byte list" where
  "framed ps = concat (map frame ps)"

lemma framed_simps [simp]:
  "framed [] = []" "framed (p # ps) = frame p @ framed ps" "framed (ps @ qs) = framed ps @ framed qs"
  by (simp_all add: framed_def)

text \<open>A reader of the stream, as the spawning process is.\<close>

function read_frames :: "byte list \<Rightarrow> byte list list \<times> byte list" where
  "read_frames b =
     (case packet_take b of
        None \<Rightarrow> ([], b)
      | Some (p, r) \<Rightarrow> (let (ps, t) = read_frames r in (p # ps, t)))"
  by pat_completeness auto
termination
  by (relation "measure length") (auto dest: packet_take_length)

declare read_frames.simps [simp del]

lemma packet_take_Nil [simp]: "packet_take [] = None"
  by (simp add: packet_take_def)

lemma read_framed:
  "list_all (\<lambda>p. length p < 2 ^ 32) ps \<Longrightarrow> packet_take t = None \<Longrightarrow> read_frames (framed ps @ t) = (ps, t)"
proof (induction ps)
  case Nil
  then show ?case by (simp add: read_frames.simps [of t])
next
  case (Cons p ps)
  then show ?case by (simp add: read_frames.simps [of "frame p @ framed ps @ t"])
qed

lemma read_frames_inverse:
  "read_frames b = (ps, t) \<Longrightarrow>
     b = framed ps @ t \<and> packet_take t = None \<and> list_all (\<lambda>p. length p < 2 ^ 32) ps"
proof (induction b arbitrary: ps t rule: read_frames.induct)
  case (1 b)
  show ?case
  proof (cases "packet_take b")
    case None
    then show ?thesis using "1.prems" by (auto simp: read_frames.simps [of b])
  next
    case (Some q)
    obtain p r where q: "q = (p, r)" by fastforce
    obtain ps' where "read_frames r = (ps', t)" "ps = p # ps'"
      using "1.prems" Some q by (auto simp: read_frames.simps [of b] split: prod.splits)
    then show ?thesis
      using "1.IH" [OF Some q [symmetric]] Some unfolding q packet_take_iff by simp
  qed
qed

section \<open>Values on the wire\<close>

text \<open>What the two ends of the pipe need of the encoding of their messages.\<close>

locale wire_codec =
  fixes encode :: "'v \<Rightarrow> byte list"
    and decode :: "byte list \<Rightarrow> exn + 'v"
    and valid :: "'v \<Rightarrow> bool"
  assumes decode_encode: "valid v \<Longrightarrow> decode (encode v) = Inr v"
    and encode_short: "valid v \<Longrightarrow> length (encode v) < 2 ^ 32"
begin

lemma stream_frames:
  assumes "list_all valid vs" "packet_take t = None"
  shows "read_frames (framed (map encode vs) @ t) = (map encode vs, t)"
proof (rule read_framed [OF _ assms(2)])
  show "list_all (\<lambda>p. length p < 2 ^ 32) (map encode vs)"
    using assms(1) encode_short by (simp add: list_all_iff)
qed

lemma stream_values:
  "list_all valid vs \<Longrightarrow> packet_take t = None \<Longrightarrow>
     map decode (fst (read_frames (framed (map encode vs) @ t))) = map Inr vs"
  by (simp add: stream_frames decode_encode list_all_iff)

end

text \<open>JSON in UTF-8, for the values that fit a frame.\<close>

definition wire :: "jv \<Rightarrow> byte list" where
  "wire v = utf8_encode (stringify v)"

definition unwire :: "byte list \<Rightarrow> exn + jv" where
  "unwire p = json_parse (utf8_decode p)"

definition fits_frame :: "jv \<Rightarrow> bool" where
  "fits_frame v \<longleftrightarrow> length (wire v) < 2 ^ 32"

interpretation json_wire: wire_codec wire unwire "\<lambda>v. plain v \<and> fits_frame v"
  by unfold_locales (simp_all add: wire_def unwire_def fits_frame_def wire_roundtrip)

section \<open>Draining the buffer\<close>

lemma packet_state_buffer_id [simp]: "st\<lparr>ps_buffer := ps_buffer st\<rparr> = st"
  by simp

lemma packet_payload_frame:
  "packet_payload H p (st\<lparr>ps_buffer := b\<rparr>) = (packet_payload H p st)\<lparr>ps_buffer := b\<rparr>"
  by (auto simp: packet_payload_def packet_request_def packet_catch_def packet_write_def Let_def
      split: sum.split prod.split)

text \<open>The abstract server: one payload after another until the process ends.\<close>

definition packet_serve :: "'s packet_host \<Rightarrow> byte list \<Rightarrow> 's packet_state \<Rightarrow> 's packet_state" where
  "packet_serve H p st = (if ps_life st = Alive then packet_payload H p st else st)"

definition packet_spec :: "'s packet_host \<Rightarrow> byte list list \<Rightarrow> 's packet_state \<Rightarrow> 's packet_state" where
  "packet_spec H ps st = fold (packet_serve H) ps st"

lemma packet_spec_simps [simp]:
  "packet_spec H [] st = st"
  "packet_spec H (p # ps) st = packet_spec H ps (packet_serve H p st)"
  "packet_spec H (ps @ qs) st = packet_spec H qs (packet_spec H ps st)"
  by (simp_all add: packet_spec_def)

lemma packet_spec_dead [simp]: "ps_life st \<noteq> Alive \<Longrightarrow> packet_spec H ps st = st"
  by (induction ps) (simp_all add: packet_serve_def)

lemma packet_serve_buffer [simp]: "ps_buffer (packet_serve H p st) = ps_buffer st"
  by (simp add: packet_serve_def)

lemma packet_spec_buffer [simp]: "ps_buffer (packet_spec H ps st) = ps_buffer st"
  by (induction ps arbitrary: st) simp_all

lemma packet_serve_frame: "packet_serve H p (st\<lparr>ps_buffer := b\<rparr>) = (packet_serve H p st)\<lparr>ps_buffer := b\<rparr>"
  by (simp add: packet_serve_def packet_payload_frame)

lemma packet_spec_frame: "packet_spec H ps (st\<lparr>ps_buffer := b\<rparr>) = (packet_spec H ps st)\<lparr>ps_buffer := b\<rparr>"
  by (induction ps arbitrary: st) (simp_all add: packet_serve_frame)

text \<open>What can be seen of a state: bytes nobody will read any more are not.\<close>

definition observe :: "'s packet_state \<Rightarrow> 's packet_state" where
  "observe st = (if ps_life st = Alive then st else st\<lparr>ps_buffer := []\<rparr>)"

lemma packet_drain_dead [simp]: "ps_life st \<noteq> Alive \<Longrightarrow> packet_drain H st = st"
  by (simp add: packet_drain.simps)

lemma drain_spec:
  "observe (packet_drain H (st\<lparr>ps_buffer := b\<rparr>)) =
     observe (let (ps, t) = read_frames b in (packet_spec H ps st)\<lparr>ps_buffer := t\<rparr>)"
proof (induction b arbitrary: st rule: read_frames.induct)
  case (1 b)
  show ?case
  proof (cases "ps_life st = Alive")
    case dead: False
    then show ?thesis by (simp add: observe_def split: prod.split)
  next
    case alive: True
    show ?thesis
    proof (cases "packet_take b")
      case None
      then show ?thesis using alive by (simp add: packet_drain.simps [of H] read_frames.simps [of b])
    next
      case (Some q)
      obtain p r where q: "q = (p, r)" by fastforce
      have "packet_drain H (st\<lparr>ps_buffer := b\<rparr>) = packet_drain H ((packet_payload H p st)\<lparr>ps_buffer := r\<rparr>)"
        using Some q alive by (simp add: packet_drain.simps [of H "st\<lparr>ps_buffer := b\<rparr>"] packet_payload_frame)
      then show ?thesis
        using "1.IH" [OF Some q [symmetric], of "packet_payload H p st"] Some q alive
        by (simp add: read_frames.simps [of b] packet_serve_def split: prod.splits)
    qed
  qed
qed

lemma observe_drain_residue: "ps_life (packet_drain H st) = Alive \<Longrightarrow> packet_take (ps_buffer (packet_drain H st)) = None"
proof (induction H st rule: packet_drain.induct)
  case (1 H st)
  then show ?case
    by (cases "packet_take (ps_buffer st)")
       (auto simp: packet_drain.simps [of H st] split: if_splits)
qed

section \<open>Chunks\<close>

lemma read_frames_append:
  "read_frames b = (ps, t) \<Longrightarrow> read_frames (t @ c) = (qs, u) \<Longrightarrow> read_frames (b @ c) = (ps @ qs, u)"
proof (induction b arbitrary: ps rule: read_frames.induct)
  case (1 b)
  show ?case
  proof (cases "packet_take b")
    case None
    then show ?thesis using "1.prems" by (simp add: read_frames.simps [of b])
  next
    case (Some q)
    obtain p r where q: "q = (p, r)" by fastforce
    obtain ps' where "read_frames r = (ps', t)" "ps = p # ps'"
      using "1.prems"(1) Some q by (auto simp: read_frames.simps [of b] split: prod.splits)
    then show ?thesis
      using "1.IH" [OF Some q [symmetric] _ "1.prems"(2)] packet_take_append [of b p r c] Some q
      by (simp add: read_frames.simps [of "b @ c"])
  qed
qed

lemma observe_buffer_dead: "ps_life st \<noteq> Alive \<Longrightarrow> observe (st\<lparr>ps_buffer := b\<rparr>) = observe st"
  by (simp add: observe_def)

lemma observe_life [simp]: "ps_life (observe st) = ps_life st"
  by (simp add: observe_def)

lemma packet_feed_dead: "ps_life st \<noteq> Alive \<Longrightarrow> packet_feed H chunks st = st"
  by (induction chunks) (simp_all add: packet_feed_def packet_data_def)

text \<open>
  A session depends on the bytes that arrived, not on the chunks they arrived in: it is the abstract
  server on the frames the stream contains.
\<close>

lemma feed_refines_spec:
  assumes "packet_take (ps_buffer st) = None"
  shows "observe (packet_feed H chunks st) =
      observe (let (ps, t) = read_frames (ps_buffer st @ concat chunks)
               in (packet_spec H ps st)\<lparr>ps_buffer := t\<rparr>)"
  using assms
proof (induction chunks arbitrary: st)
  case Nil
  then show ?case by (simp add: packet_feed_def read_frames.simps)
next
  case (Cons c chunks)
  obtain ps t where ps: "read_frames (ps_buffer st @ c) = (ps, t)" by fastforce
  obtain qs u where qs: "read_frames (t @ concat chunks) = (qs, u)" by fastforce
  have all: "read_frames (ps_buffer st @ c @ concat chunks) = (ps @ qs, u)"
    using read_frames_append [OF ps qs] by simp
  show ?case
  proof (cases "ps_life st = Alive")
    case False
    then show ?thesis using packet_feed_dead [OF False] by (simp add: observe_def split: prod.split)
  next
    case alive: True
    let ?st1 = "packet_drain H (st\<lparr>ps_buffer := ps_buffer st @ c\<rparr>)"
    have feed: "packet_feed H (c # chunks) st = packet_feed H chunks ?st1"
      using alive by (simp add: packet_feed_def packet_data_def)
    have st1: "observe ?st1 = observe ((packet_spec H ps st)\<lparr>ps_buffer := t\<rparr>)"
      by (simp add: drain_spec ps)
    then have life: "ps_life ?st1 = ps_life (packet_spec H ps st)"
      by (metis observe_life packet_state.select_convs(4) packet_state.surjective packet_state.update_convs(2))
    show ?thesis
    proof (cases "ps_life ?st1 = Alive")
      case True
      then have eq: "?st1 = (packet_spec H ps st)\<lparr>ps_buffer := t\<rparr>"
        using st1 life by (simp add: observe_def)
      have "packet_take (ps_buffer ?st1) = None" using observe_drain_residue [OF True] .
      note ih = Cons.IH [OF this, unfolded eq]
      have "packet_spec H qs ((packet_spec H ps st)\<lparr>ps_buffer := t\<rparr>)\<lparr>ps_buffer := u\<rparr>
          = packet_spec H (ps @ qs) st\<lparr>ps_buffer := u\<rparr>" for u
        by (simp add: packet_spec_frame)
      then show ?thesis unfolding feed eq using ih qs all by simp
    next
      case False
      then show ?thesis
        unfolding feed packet_feed_dead [OF False]
        using st1 life all by (simp add: observe_buffer_dead)
    qed
  qed
qed

end
