(* ===== verification/Packet_Facts.thy ===== *)
theory Packet_Facts
  imports Packet_Frames Abi_Trace
begin

text \<open>
  What the long-lived host answers and calls: every reply is a frame with an \<open>ok\<close> field and the id of
  its request, the one request that kills the process, the guard in front of the exports, and the
  request stream as the spawning process writes it.
\<close>

section \<open>Replies\<close>

text \<open>A reply to a request whose id is \<open>i\<close>.\<close>

definition reply_to :: "jv option \<Rightarrow> jv \<Rightarrow> bool" where
  "reply_to i v \<longleftrightarrow>
     (\<exists>result. v = packet_ok i result) \<or> (\<exists>message. v = packet_error (reply_id i) message)"

text \<open>The id of a payload's request, undefined when the payload is not JSON.\<close>

definition request_id :: "byte list \<Rightarrow> jv option" where
  "request_id p =
     (case json_parse (utf8_decode p) of
        Inl e \<Rightarrow> None
      | Inr q \<Rightarrow> (case get_prop q (js ''id'') of Inl e \<Rightarrow> None | Inr i \<Rightarrow> i))"

lemma writeFrame_Inr: "writeFrame v = Inr b \<Longrightarrow> b = frame (wire v) \<and> length (wire v) < 2 ^ 32"
  by (auto simp: writeFrame_def wire_def Let_def split: if_splits)

lemma writeFrame_Inl: "writeFrame v = Inl e \<Longrightarrow> e = Fault Out_of_range"
  by (auto simp: writeFrame_def Let_def split: if_splits)

text \<open>One step of the server: at most one reply, and a crash only without one.\<close>

definition answers :: "jv option \<Rightarrow> 's packet_state \<Rightarrow> 's packet_state \<Rightarrow> bool" where
  "answers i st st' \<longleftrightarrow>
     (case ps_life st' of
        Crashed e \<Rightarrow> ps_out st' = ps_out st
      | _ \<Rightarrow> (\<exists>v. reply_to i v \<and> length (wire v) < 2 ^ 32 \<and> ps_out st' = ps_out st @ frame (wire v)))"

lemma get_prop_not_null: "q \<noteq> JNull \<Longrightarrow> \<exists>i. get_prop q k = Inr i"
  by (cases q) (simp_all add: get_prop_def)

lemma packet_write_answers:
  "ps_life st = Alive \<Longrightarrow> answers i st (packet_write (writeFrame (packet_error (reply_id i) m)) st)"
  by (auto simp: packet_write_def answers_def reply_to_def split: sum.split dest!: writeFrame_Inr)

lemma answers_out: "ps_out st0 = ps_out st \<Longrightarrow> answers i st0 st' = answers i st st'"
  unfolding answers_def by (simp only:)

lemma packet_catch_answers:
  assumes "get_prop q (js ''id'') = Inr i" "ps_life st = Alive" "ps_out st0 = ps_out st"
  shows "answers i st0 (packet_catch H q e st)"
  using packet_write_answers [OF assms(2), of i "message_of (ph_texts H) e"] assms
  by (simp add: packet_catch_def answers_out [OF assms(3)])

lemma packet_handle_reply:
  "packet_handle H q s = (t, Inr v) \<Longrightarrow> \<exists>i r. get_prop q (js ''id'') = Inr i \<and> v = packet_ok i r"
  by (auto simp: packet_handle_def bindC_Inr_iff split: if_splits)

lemma packet_payload_answers:
  assumes "ps_life st = Alive"
  shows "answers (request_id p) st (packet_payload H p st)"
proof (cases "json_parse (utf8_decode p)")
  case (Inl e)
  then show ?thesis
    using packet_write_answers [OF assms, of None]
    by (simp add: packet_payload_def request_id_def reply_id_def)
next
  case (Inr q)
  show ?thesis
  proof (cases "q = JNull")
    case True
    then show ?thesis using Inr assms
      by (simp add: packet_payload_def packet_request_def packet_handle_def bindC_def get_prop_def
          packet_catch_def answers_def)
  next
    case False
    then obtain i where i: "get_prop q (js ''id'') = Inr i" using get_prop_not_null by blast
    then have id: "request_id p = i" using Inr by (simp add: request_id_def)
    obtain t r where h: "packet_handle H q (ps_inst st) = (t, r)" by fastforce
    have caught: "answers i st (packet_catch H q e (st\<lparr>ps_inst := t\<rparr>))" for e
      by (rule packet_catch_answers [OF i]) (simp_all add: assms)
    show ?thesis
    proof (cases r)
      case (Inl e)
      then show ?thesis using Inr h caught id by (simp add: packet_payload_def packet_request_def)
    next
      case r: (Inr v)
      then obtain x where "v = packet_ok i x" using packet_handle_reply h i by fastforce
      then show ?thesis
        using Inr h r caught id
        by (auto simp: packet_payload_def packet_request_def answers_def reply_to_def
            split: sum.split dest!: writeFrame_Inr)
    qed
  qed
qed

text \<open>The output of a session is a sequence of frames, the k-th answering the k-th request.\<close>

lemma packet_spec_replies:
  assumes "ps_life st = Alive"
  shows "\<exists>vs. ps_out (packet_spec H ps st) = ps_out st @ framed (map wire vs)
      \<and> list_all2 (\<lambda>p v. reply_to (request_id p) v \<and> length (wire v) < 2 ^ 32) (take (length vs) ps) vs
      \<and> (ps_life (packet_spec H ps st) = Alive \<longrightarrow> length vs = length ps)"
  using assms
proof (induction ps arbitrary: st)
  case Nil
  then show ?case by (intro exI [of _ "[]"]) simp
next
  case (Cons p ps)
  let ?st1 = "packet_payload H p st"
  have a: "answers (request_id p) st ?st1" using packet_payload_answers [OF Cons.prems] .
  have step: "packet_spec H (p # ps) st = packet_spec H ps ?st1"
    using Cons.prems by (simp add: packet_serve_def)
  show ?case
  proof (cases "ps_life ?st1")
    case (Crashed e)
    then show ?thesis using a step by (intro exI [of _ "[]"]) (simp add: answers_def)
  next
    case (Exited n)
    then obtain v where "reply_to (request_id p) v" "length (wire v) < 2 ^ 32"
      "ps_out ?st1 = ps_out st @ frame (wire v)"
      using a by (auto simp: answers_def)
    then show ?thesis using Exited step by (intro exI [of _ "[v]"]) simp
  next
    case Alive
    then obtain v where v: "reply_to (request_id p) v" "length (wire v) < 2 ^ 32"
      "ps_out ?st1 = ps_out st @ frame (wire v)"
      using a by (auto simp: answers_def)
    obtain vs where "ps_out (packet_spec H ps ?st1) = ps_out ?st1 @ framed (map wire vs)"
      "list_all2 (\<lambda>p v. reply_to (request_id p) v \<and> length (wire v) < 2 ^ 32) (take (length vs) ps) vs"
      "ps_life (packet_spec H ps ?st1) = Alive \<longrightarrow> length vs = length ps"
      using Cons.IH [OF Alive] by blast
    then show ?thesis using v step by (intro exI [of _ "v # vs"]) simp
  qed
qed

section \<open>The null request\<close>

text \<open>
  The error reply that is due to a payload, if one is: it is not JSON, the handler throws, or the
  handler's reply does not fit a frame, whose length field has 32 bits.
\<close>

definition failure_reply :: "'s packet_host \<Rightarrow> byte list \<Rightarrow> 's packet_state \<Rightarrow> jv option" where
  "failure_reply H p st =
     (case json_parse (utf8_decode p) of
        Inl e \<Rightarrow> Some (packet_error (JNum (NInt (-1))) (js ''malformed request: '' @ message_of (ph_texts H) e))
      | Inr q \<Rightarrow>
          (case snd (packet_handle H q (ps_inst st)) of
             Inl e \<Rightarrow> Some (packet_error (reply_id (request_id p)) (message_of (ph_texts H) e))
           | Inr v \<Rightarrow>
               (if length (wire v) < 2 ^ 32 then None
                else Some (packet_error (reply_id (request_id p)) (message_of (ph_texts H) (Fault Out_of_range))))))"

lemma packet_write_frame:
  "packet_write (writeFrame v) st =
     (if length (wire v) < 2 ^ 32 then st\<lparr>ps_out := ps_out st @ frame (wire v)\<rparr>
      else st\<lparr>ps_life := Crashed (Fault Out_of_range)\<rparr>)"
  by (simp add: packet_write_def writeFrame_def wire_def Let_def)

lemma packet_payload_null:
  "json_parse (utf8_decode p) = Inr JNull \<Longrightarrow>
     ps_life (packet_payload H p st) = Crashed (Fault (Undefined_base (js ''id'')))"
  by (simp add: packet_payload_def packet_request_def packet_handle_def bindC_def get_prop_def packet_catch_def)

text \<open>For every other payload the error reply, if one is due, is written outside every \<open>try\<close>.\<close>

lemma packet_payload_failure:
  assumes "ps_life st = Alive" "json_parse (utf8_decode p) \<noteq> Inr JNull"
  shows "case failure_reply H p st of
      None \<Rightarrow> ps_life (packet_payload H p st) \<in> {Alive, Exited 0}
    | Some v \<Rightarrow> \<exists>i. packet_payload H p st = packet_write (writeFrame v) (st\<lparr>ps_inst := i\<rparr>)"
proof (cases "json_parse (utf8_decode p)")
  case (Inl e)
  then show ?thesis
    by (auto simp: failure_reply_def packet_payload_def intro!: exI [of _ "ps_inst st"])
next
  case (Inr q)
  then obtain i where i: "get_prop q (js ''id'') = Inr i" "request_id p = i"
    using assms(2) get_prop_not_null [of q "js ''id''"] by (auto simp: request_id_def)
  obtain t r where h: "packet_handle H q (ps_inst st) = (t, r)" by fastforce
  show ?thesis
  proof (cases r)
    case (Inl e)
    then show ?thesis using \<open>json_parse _ = _\<close> i h
      by (auto simp: failure_reply_def packet_payload_def packet_request_def packet_catch_def)
  next
    case r: (Inr v)
    show ?thesis
    proof (cases "length (wire v) < 2 ^ 32")
      case True
      then have "writeFrame v = Inr (frame (wire v))" by (simp add: writeFrame_def wire_def Let_def)
      then show ?thesis using \<open>json_parse _ = _\<close> h r True
        by (simp add: failure_reply_def packet_payload_def packet_request_def)
    next
      case False
      then have "writeFrame v = Inl (Fault Out_of_range)" by (simp add: writeFrame_def wire_def Let_def)
      then show ?thesis using \<open>json_parse _ = _\<close> i h r False
        by (auto simp: failure_reply_def packet_payload_def packet_request_def packet_catch_def)
    qed
  qed
qed

section \<open>The guard in front of the exports\<close>

definition traced_host :: "'s packet_host \<Rightarrow> 's logged packet_host" where
  "traced_host H =
     \<lparr>ph_exports = traced (ph_exports H), ph_digest = ph_digest H, ph_path = ph_path H,
      ph_engine = ph_engine H, ph_texts = ph_texts H, ph_native = ph_native H\<rparr>"

lemma traced_host_simps [simp]:
  "ph_exports (traced_host H) = traced (ph_exports H)" "ph_native (traced_host H) = ph_native H"
  "packet_descriptor (traced_host H) = packet_descriptor H"
  by (simp_all add: traced_host_def packet_descriptor_def)

definition graphlaw_names :: "jstr set" where
  "graphlaw_names = fst ` set arity_table"

lemma arity_guard_count:
  assumes "arity_guard native k args = Inr u"
  shows "k \<in> graphlaw_names \<and> (\<exists>n. map_of arity_table k = Some n \<and> length_prop args = Inr (Some (JNum (NInt (int n)))))"
  using assms
  by (force simp: arity_guard_def arity_of_def graphlaw_names_def dest: map_of_SomeD
      split: arity.splits sum.splits if_splits option.splits)

lemma tracks_packet_exchange [tracks_intros]:
  "insert k abi_names \<subseteq> P \<Longrightarrow> tracks P (packet_exchange (traced E) k args) (packet_exchange E k args)"
  unfolding packet_exchange_def packet_putString_def by (intro tracks_intros) auto

lemma tracks_lift_bind:
  "(\<And>a. r = Inr a \<Longrightarrow> tracks P (f' a) (f a)) \<Longrightarrow> tracks P (bindC (liftC r) f') (bindC (liftC r) f)"
  by (cases r) (auto simp: tracks_def bindC_def intro!: exI [of _ "[]"])

lemma tracks_callGraphLaw [tracks_intros]:
  "tracks (graphlaw_names \<union> abi_names) (callGraphLaw (traced_host H) fn args) (callGraphLaw H fn args)"
  unfolding callGraphLaw_def
  by (auto intro!: tracks_lift_bind tracks_intros dest!: arity_guard_count)

lemma tracks_packet_handle [tracks_intros]:
  "tracks (graphlaw_names \<union> abi_names) (packet_handle (traced_host H) q) (packet_handle H q)"
  unfolding packet_handle_def traced_host_simps by (intro tracks_intros)

text \<open>Instrumentation commutes with every step of the server.\<close>

definition erase_state :: "'s logged packet_state \<Rightarrow> 's packet_state" where
  "erase_state st =
     \<lparr>ps_inst = erase (ps_inst st), ps_buffer = ps_buffer st, ps_out = ps_out st, ps_life = ps_life st\<rparr>"

definition log_grows :: "'s logged packet_state \<Rightarrow> 's logged packet_state \<Rightarrow> bool" where
  "log_grows st st' \<longleftrightarrow>
     (\<exists>l. log_of (ps_inst st') = log_of (ps_inst st) @ l \<and> fst ` set l \<subseteq> graphlaw_names \<union> abi_names)"

lemma log_grows_refl [simp]: "log_grows st st"
  by (simp add: log_grows_def)

lemma log_grows_trans: "log_grows a b \<Longrightarrow> log_grows b c \<Longrightarrow> log_grows a c"
proof -
  assume "log_grows a b" "log_grows b c"
  then obtain l k where "log_of (ps_inst b) = log_of (ps_inst a) @ l" "fst ` set l \<subseteq> graphlaw_names \<union> abi_names"
    "log_of (ps_inst c) = log_of (ps_inst b) @ k" "fst ` set k \<subseteq> graphlaw_names \<union> abi_names"
    unfolding log_grows_def by blast
  then show "log_grows a c" unfolding log_grows_def by (intro exI [of _ "l @ k"]) (simp add: image_Un)
qed

lemma log_grows_buffer [simp]: "log_grows (st\<lparr>ps_buffer := b\<rparr>) st' = log_grows st st'"
  by (simp add: log_grows_def)

lemma erase_state_simps [simp]:
  "ps_inst (erase_state st) = erase (ps_inst st)" "ps_buffer (erase_state st) = ps_buffer st"
  "ps_out (erase_state st) = ps_out st" "ps_life (erase_state st) = ps_life st"
  "erase_state (st\<lparr>ps_buffer := b\<rparr>) = (erase_state st)\<lparr>ps_buffer := b\<rparr>"
  "erase_state (st\<lparr>ps_life := x\<rparr>) = (erase_state st)\<lparr>ps_life := x\<rparr>"
  "erase_state (st\<lparr>ps_inst := i\<rparr>) = (erase_state st)\<lparr>ps_inst := erase i\<rparr>"
  "erase_state (st\<lparr>ps_out := q\<rparr>) = (erase_state st)\<lparr>ps_out := q\<rparr>"
  by (simp_all add: erase_state_def)

lemma erase_write [simp]: "erase_state (packet_write w st) = packet_write w (erase_state st)"
  by (simp add: packet_write_def split: sum.split)

lemma texts_traced [simp]: "ph_texts (traced_host H) = ph_texts H"
  by (simp add: traced_host_def)

lemma erase_catch [simp]: "erase_state (packet_catch (traced_host H) q e st) = packet_catch H q e (erase_state st)"
  by (simp add: packet_catch_def split: sum.split)

lemma inst_write [simp]: "ps_inst (packet_write w st) = ps_inst st"
  by (simp add: packet_write_def split: sum.split)

lemma inst_catch [simp]: "ps_inst (packet_catch H q e st) = ps_inst st"
  by (simp add: packet_catch_def split: sum.split)

lemma request_traced:
  "erase_state (packet_request (traced_host H) q st) = packet_request H q (erase_state st)
   \<and> log_grows st (packet_request (traced_host H) q st)"
proof -
  let ?m' = "packet_handle (traced_host H) q" and ?m = "packet_handle H q"
  obtain i' r' where m': "?m' (ps_inst st) = (i', r')" by fastforce
  obtain i r where m: "?m (erase (ps_inst st)) = (i, r)" by fastforce
  note d = tracksD [OF tracks_packet_handle [of H q], of "ps_inst st"]
  have eq: "r' = r" "erase i' = i" using d(1,2) m m' by simp_all
  have "log_grows st (st\<lparr>ps_inst := i'\<rparr>)"
    using d(3) m' by (simp add: log_grows_def)
  then show ?thesis
    using m m' eq
    by (auto simp: packet_request_def log_grows_def split: sum.split)
qed

lemma payload_traced:
  "erase_state (packet_payload (traced_host H) p st) = packet_payload H p (erase_state st)
   \<and> log_grows st (packet_payload (traced_host H) p st)"
  using request_traced
  by (auto simp: packet_payload_def log_grows_def split: sum.split)

lemma drain_traced:
  "erase_state (packet_drain (traced_host H) st) = packet_drain H (erase_state st)
   \<and> log_grows st (packet_drain (traced_host H) st)"
proof (induction "length (ps_buffer st)" arbitrary: st rule: less_induct)
  case less
  show ?case
  proof (cases "ps_life st = Alive \<and> packet_take (ps_buffer st) \<noteq> None")
    case False
    then show ?thesis
      by (auto simp: packet_drain.simps [of "traced_host H" st] packet_drain.simps [of H "erase_state st"]
          split: option.split)
  next
    case True
    then obtain p r where t: "packet_take (ps_buffer st) = Some (p, r)" by auto
    let ?st = "packet_payload (traced_host H) p (st\<lparr>ps_buffer := r\<rparr>)"
    have "length (ps_buffer ?st) < length (ps_buffer st)" using packet_take_length [OF t] by simp
    note ih = less [OF this]
    have "log_grows st ?st" using payload_traced [of H p "st\<lparr>ps_buffer := r\<rparr>"] by simp
    with ih show ?thesis
      using True t payload_traced [of H p "st\<lparr>ps_buffer := r\<rparr>"] log_grows_trans [of st ?st]
      by (simp add: packet_drain.simps [of "traced_host H" st] packet_drain.simps [of H "erase_state st"])
  qed
qed

lemma feed_traced:
  "erase_state (packet_feed (traced_host H) chunks st) = packet_feed H chunks (erase_state st)
   \<and> log_grows st (packet_feed (traced_host H) chunks st)"
proof (induction chunks arbitrary: st)
  case (Cons c chunks)
  have "erase_state (packet_data (traced_host H) c st) = packet_data H c (erase_state st)
      \<and> log_grows st (packet_data (traced_host H) c st)"
    using drain_traced [of H "st\<lparr>ps_buffer := ps_buffer st @ c\<rparr>"] by (simp add: packet_data_def)
  then show ?case
    using Cons.IH [of "packet_data (traced_host H) c st"] log_grows_trans
    by (fastforce simp: packet_feed_def)
qed (simp add: packet_feed_def)

section \<open>A running host for the witnesses\<close>

definition fresh_state :: "'s inst \<Rightarrow> 's packet_state" where
  "fresh_state i = \<lparr>ps_inst = i, ps_buffer = [], ps_out = [], ps_life = Alive\<rparr>"

lemma fresh_simps [simp]:
  "ps_inst (fresh_state i) = i" "ps_buffer (fresh_state i) = []" "ps_out (fresh_state i) = []"
  "ps_life (fresh_state i) = Alive"
  by (simp_all add: fresh_state_def)

definition demo_host :: "unit packet_host" where
  "demo_host = \<lparr>ph_exports = demo_E packet_imports, ph_digest = js ''00'', ph_path = js ''w'',
     ph_engine = js ''v8-12'', ph_texts = demo_texts, ph_native = (\<lambda>k. k)\<rparr>"

section \<open>Properties of a session\<close>

text \<open>
  C1: a session is a function of the bytes on standard input, not of the chunks they arrive in: after any
  sequence of data events the host is in the state of the frame-by-frame server run on the complete
  frames received so far, the bytes of an unfinished frame waiting in the buffer.
\<close>

theorem packet_session_refines:
  assumes "ps_buffer st = []" "read_frames (concat chunks) = (ps, t)"
  shows "observe (packet_feed H chunks st) = observe ((packet_spec H ps st)\<lparr>ps_buffer := t\<rparr>)"
  using feed_refines_spec [of st H chunks] assms by simp

theorem packet_session_refines_witness:
  "observe (packet_feed demo_host [[0, 0], [0], [2, 123, 125, 0, 0]] (fresh_state demo_ready))
   = observe ((packet_spec demo_host [[123, 125]] (fresh_state demo_ready))\<lparr>ps_buffer := [0, 0]\<rparr>)"
proof (rule packet_session_refines)
  have "read_frames (framed [[123, 125]] @ [0, 0]) = ([[123, 125]], [0, 0])"
    by (rule read_framed) (simp_all add: packet_take_def)
  then show "read_frames (concat [[0, 0], [0], [2, 123, 125, 0, 0]]) = ([[123, 125]], [0, 0])"
    by (simp add: frame_def be32_bytes_def)
qed simp

text \<open>
  C2: standard output carries framed responses and nothing else: a reader of the frames gets one JSON reply
  per request in request order, the k-th one answering the k-th request under its id, and for a process
  that is still running no reply is missing.
\<close>

theorem packet_replies:
  assumes "ps_buffer st = []" "ps_out st = []" "ps_life st = Alive" "read_frames (concat chunks) = (ps, t)"
  shows "\<exists>vs. read_frames (ps_out (packet_feed H chunks st)) = (map wire vs, [])
      \<and> list_all2 (\<lambda>p v. reply_to (request_id p) v) (take (length vs) ps) vs
      \<and> (ps_life (packet_feed H chunks st) = Alive \<longrightarrow> length vs = length ps)"
proof -
  obtain vs where vs: "ps_out (packet_spec H ps st) = framed (map wire vs)"
    "list_all2 (\<lambda>p v. reply_to (request_id p) v \<and> length (wire v) < 2 ^ 32) (take (length vs) ps) vs"
    "ps_life (packet_spec H ps st) = Alive \<longrightarrow> length vs = length ps"
    using packet_spec_replies [OF assms(3), of H ps] assms(2) by auto
  have obs: "observe (packet_feed H chunks st) = observe ((packet_spec H ps st)\<lparr>ps_buffer := t\<rparr>)"
    using feed_refines_spec [of st H chunks] assms by simp
  then have "ps_out (packet_feed H chunks st) = framed (map wire vs)"
    "ps_life (packet_feed H chunks st) = ps_life (packet_spec H ps st)"
    using vs(1) by (auto simp: observe_def split: if_splits)
      (metis packet_state.select_convs(3,4) packet_state.surjective packet_state.update_convs(2))+
  moreover have "list_all (\<lambda>p. length p < 2 ^ 32) (map wire vs)"
    using vs(2) by (auto simp: list_all2_conv_all_nth list_all_length)
  then have "read_frames (framed (map wire vs) @ []) = (map wire vs, [])"
    by (rule read_framed) simp
  moreover have "list_all2 (\<lambda>p v. reply_to (request_id p) v) (take (length vs) ps) vs"
    using vs(2) by (rule list_all2_mono) simp
  ultimately show ?thesis using vs(3) by (intro exI [of _ vs]) simp
qed

theorem packet_replies_witness:
  "\<exists>vs. read_frames (ps_out (packet_feed demo_host [frame [123], frame [125]] (fresh_state demo_ready))) = (map wire vs, [])
      \<and> list_all2 (\<lambda>p v. reply_to (request_id p) v) (take (length vs) [[123], [125]]) vs
      \<and> (ps_life (packet_feed demo_host [frame [123], frame [125]] (fresh_state demo_ready)) = Alive
         \<longrightarrow> length vs = length [[123 :: byte], [125]])"
proof (rule packet_replies)
  show "read_frames (concat [frame [123], frame [125]]) = ([[123], [125]], [])"
    using read_framed [of "[[123], [125]]" "[]"] by simp
qed simp_all

text \<open>
  C28: what kills the process and what does not. It dies of an exception exactly when the request is the JSON value
  null (the \<open>catch\<close> clause reads the id of it and throws again) or the error reply that is due to the
  payload does not fit a frame. Every other failure, a malformed payload, an unknown operation, a trap
  in the module or a result too long for a frame, is answered with that error reply and survived.
\<close>

theorem packet_dies_of_null:
  assumes "ps_life st = Alive"
  shows "(ps_life (packet_payload H p st) = Crashed e \<longleftrightarrow>
       (json_parse (utf8_decode p) = Inr JNull \<and> e = Fault (Undefined_base (js ''id'')))
       \<or> (json_parse (utf8_decode p) \<noteq> Inr JNull \<and> e = Fault Out_of_range
          \<and> (\<exists>v. failure_reply H p st = Some v \<and> 2 ^ 32 \<le> length (wire v))))
    \<and> (json_parse (utf8_decode p) \<noteq> Inr JNull \<and> failure_reply H p st = Some v \<and> length (wire v) < 2 ^ 32 \<longrightarrow>
         ps_life (packet_payload H p st) = Alive \<and> ps_out (packet_payload H p st) = ps_out st @ frame (wire v))"
proof (cases "json_parse (utf8_decode p) = Inr JNull")
  case True
  then show ?thesis using packet_payload_null [OF True, of H st] by auto
next
  case False
  show ?thesis
  proof (cases "failure_reply H p st")
    case None
    then show ?thesis using packet_payload_failure [OF assms False, of H] False by auto
  next
    case (Some u)
    then obtain i where "packet_payload H p st = packet_write (writeFrame u) (st\<lparr>ps_inst := i\<rparr>)"
      using packet_payload_failure [OF assms False, of H] by auto
    then show ?thesis using Some False assms by (auto simp: packet_write_frame)
  qed
qed

text \<open>The null request kills the process, the payload \<open>{\<close> is answered.\<close>

lemma brace_malformed: "json_parse (utf8_decode [123]) = Inl (Fault Bad_json)"
proof -
  have "utf8_encode [123] = [123]" by (simp add: utf8_encode_ascii)
  then have "utf8_decode [123] = [123]" using utf8_roundtrip [of "[123]"] by (simp add: well_formed_asciiI)
  moreover have "parse_value (Suc (Suc n)) [123] = None" for n
    by (simp add: parse_value.simps parse_members.simps is_ws_def)
  from this [of 2] have "parse_value 4 [123] = None" by (simp add: numeral_eq_Suc)
  ultimately show ?thesis by (simp add: json_parse_def)
qed

lemma malformed_text:
  "stringify (packet_error (JNum (NInt (-1))) (js ''malformed request: engine''))
     = js ''{\"id\":-1,\"ok\":false,\"error\":\"malformed request: engine\"}''"
  by (simp add: packet_error_def ok_field_def stringify.simps quote_quiet quiet_js json_num_def int_text_def
      nat_text_def dec_digits.simps) (simp add: js_def)

lemma demo_malformed:
  "failure_reply demo_host [123] st = Some (packet_error (JNum (NInt (-1))) (js ''malformed request: engine''))"
  "length (wire (packet_error (JNum (NInt (-1))) (js ''malformed request: engine''))) < 2 ^ 32"
proof -
  have "js ''malformed request: '' @ js ''engine'' = js ''malformed request: engine''"
    by (simp only: js_append [symmetric] append.simps)
  then show "failure_reply demo_host [123] st = Some (packet_error (JNum (NInt (-1))) (js ''malformed request: engine''))"
    by (simp add: failure_reply_def brace_malformed demo_host_def demo_texts_def)
  show "length (wire (packet_error (JNum (NInt (-1))) (js ''malformed request: engine''))) < 2 ^ 32"
    by (simp add: wire_def malformed_text length_utf8_ascii)
qed

theorem packet_dies_of_null_witness:
  "ps_life (packet_payload demo_host (wire JNull) (fresh_state demo_ready))
     = Crashed (Fault (Undefined_base (js ''id'')))
   \<and> ps_life (packet_payload demo_host [123] (fresh_state demo_ready)) = Alive
   \<and> ps_out (packet_payload demo_host [123] (fresh_state demo_ready))
     = frame (wire (packet_error (JNum (NInt (-1))) (js ''malformed request: engine'')))"
proof -
  have "json_parse (utf8_decode (wire JNull)) = Inr JNull" by (simp add: wire_def wire_roundtrip)
  moreover have "json_parse (utf8_decode [123]) \<noteq> Inr JNull" by (simp add: brace_malformed)
  ultimately show ?thesis
    using packet_dies_of_null [of "fresh_state demo_ready" demo_host "wire JNull" "Fault (Undefined_base (js ''id''))"]
      packet_dies_of_null [of "fresh_state demo_ready" demo_host "[123]"] demo_malformed
    by simp
qed

text \<open>
  C14: whatever arrives on standard input, in whatever chunks, the host calls nothing of the module but the
  five functions of its arity table and the three of the string protocol; recording the calls changes
  neither output nor instance nor life of the process.
\<close>

theorem packet_session_calls:
  "fst ` set (log_of (ps_inst (packet_feed (traced_host H) chunks (fresh_state (logged i [])))))
      \<subseteq> graphlaw_names \<union> abi_names
   \<and> erase_state (packet_feed (traced_host H) chunks (fresh_state (logged i []))) = packet_feed H chunks (fresh_state i)"
proof -
  have "erase_state (fresh_state (logged i [])) = fresh_state i"
    by (simp add: erase_state_def fresh_state_def)
  note run = feed_traced [of H chunks "fresh_state (logged i [])", unfolded this]
  then show ?thesis by (auto simp: log_grows_def)
qed

text \<open>
  C31: a call of a name that is not in the arity table, or with a number of arguments that is not the
  table's, is answered with an error before anything of the module is called, for the names inherited from
  \<open>Object.prototype\<close> too: the instance is untouched.
\<close>

theorem packet_arity_guard:
  assumes "map_of arity_table k \<noteq> Some (length vs)"
  shows "\<exists>m. callGraphLaw H (Some (JStr k)) (Some (JArr vs)) st = (st, Inl (Thrown m))"
proof -
  have "\<exists>m. arity_guard (ph_native H) k (Some (JArr vs)) = Inl (Thrown m)"
    using assms
    by (auto simp: arity_guard_def arity_of_def length_prop_def arity_mismatch_def to_string_opt_def
        split: option.split)
  then obtain m where "arity_guard (ph_native H) k (Some (JArr vs)) = Inl (Thrown m)" by blast
  then show ?thesis by (intro exI [of _ m]) (simp add: callGraphLaw_def to_string_opt_def)
qed

theorem packet_arity_guard_witness:
  "\<exists>m. callGraphLaw demo_host (Some (str ''toString'')) (Some (JArr [])) demo_ready = (demo_ready, Inl (Thrown m))"
  by (rule packet_arity_guard) (simp add: arity_table_def)

text \<open>
  C32: the guard counts code units but the loop passes code points. A string given for the argument list is
  accepted when its length is the arity, and the export is then called with one argument per code point:
  fewer than its arity when the string holds a surrogate pair.
\<close>

theorem packet_string_arguments:
  assumes "map_of arity_table k = Some (length s)"
  shows "callGraphLaw H (Some (JStr k)) (Some (JStr s)) =
      string_call (ph_exports H) (\<lambda>c. packet_putString (ph_exports H) (JStr (units_of_cp c))) k (code_points s)"
proof -
  have "callGraphLaw H (Some (JStr k)) (Some (JStr s)) = packet_exchange (ph_exports H) k (Some (JStr s))"
    using assms by (simp add: callGraphLaw_def to_string_opt_def arity_guard_def arity_of_def length_prop_def)
  moreover have "push_args (packet_putString (ph_exports H)) (map (\<lambda>c. JStr (units_of_cp c)) (code_points s))
      = push_args (\<lambda>c. packet_putString (ph_exports H) (JStr (units_of_cp c))) (code_points s)"
    by (rule push_args_map)
  ultimately show ?thesis by (simp add: packet_exchange_def packet_iterate_def string_call_def)
qed

text \<open>\<open>run_hooks\<close>, which takes two strings, is called with one.\<close>

theorem packet_string_arguments_witness:
  "callGraphLaw demo_host (Some (str ''run_hooks'')) (Some (JStr [0xD83D, 0xDE00])) =
     string_call (ph_exports demo_host) (\<lambda>c. packet_putString (ph_exports demo_host) (JStr (units_of_cp c))) (js ''run_hooks'') [0x1F600]"
  using packet_string_arguments [of "js ''run_hooks''" "[0xD83D, 0xDE00]" demo_host]
  by (simp add: arity_table_def is_high_def is_low_def pair_cp_def)

text \<open>
  A close request is acknowledged and ends the process with status 0; the instance is untouched and
  nothing that arrives later, in the same chunk or in another, is looked at.
\<close>

theorem packet_close:
  assumes "ps_life st = Alive" "ps_buffer st = []"
    and "json_parse (utf8_decode p) = Inr q" "get_prop q (js ''op'') = Inr (Some (str ''close''))"
    and "get_prop q (js ''id'') = Inr i" "length (wire (packet_ok i (js ''closing''))) < 2 ^ 32"
    and "length p < 2 ^ 32"
  shows "observe (packet_feed H ((frame p @ extra) # chunks) st) =
      observe (st\<lparr>ps_out := ps_out st @ frame (wire (packet_ok i (js ''closing''))), ps_life := Exited 0\<rparr>)"
proof -
  let ?st = "st\<lparr>ps_out := ps_out st @ frame (wire (packet_ok i (js ''closing''))), ps_life := Exited 0\<rparr>"
  have served: "packet_serve H p st = ?st"
    using assms by (simp add: packet_serve_def packet_payload_def packet_request_def packet_handle_def
        writeFrame_def wire_def)
  obtain ps t where extra: "read_frames (extra @ concat chunks) = (ps, t)" by fastforce
  have "packet_take (frame p @ extra @ concat chunks) = Some (p, extra @ concat chunks)"
    by (rule packet_take_frame [OF assms(7)])
  then have "read_frames (concat ((frame p @ extra) # chunks)) = (p # ps, t)"
    using extra by (simp add: read_frames.simps [of "frame p @ extra @ concat chunks"])
  then have "observe (packet_feed H ((frame p @ extra) # chunks) st)
      = observe ((packet_spec H (p # ps) st)\<lparr>ps_buffer := t\<rparr>)"
    using feed_refines_spec [of st H "(frame p @ extra) # chunks"] assms(2) by simp
  also have "packet_spec H (p # ps) st = ?st" by (simp add: served)
  also have "observe (?st\<lparr>ps_buffer := t\<rparr>) = observe ?st" by (simp add: observe_def)
  finally show ?thesis .
qed

definition close_request :: jv where
  "close_request = JObj [(js ''id'', JNum (NInt 7)), (js ''op'', str ''close'')]"

lemma plain_close: "plain close_request"
proof -
  have "own_order [js ''id'', js ''op'']" by (rule own_order_words) (simp_all add: is_digit_def)
  then show ?thesis by (simp add: close_request_def)
qed

lemma close_texts:
  "stringify close_request = js ''{\"id\":7,\"op\":\"close\"}''"
  "stringify (packet_ok (Some (JNum (NInt 7))) (js ''closing'')) = js ''{\"id\":7,\"ok\":true,\"result\":\"closing\"}''"
  by (simp_all add: close_request_def packet_ok_def packet_id_def ok_field_def stringify.simps quote_quiet
      quiet_js json_num_def int_text_def nat_text_def dec_digits.simps)
     (simp_all add: js_def)

lemma close_lengths:
  "length (wire close_request) < 2 ^ 32"
  "length (wire (packet_ok (Some (JNum (NInt 7))) (js ''closing''))) < 2 ^ 32"
  by (simp_all add: wire_def close_texts length_utf8_ascii)

theorem packet_close_witness:
  "observe (packet_feed demo_host [frame (wire close_request) @ [1, 2], [3]] (fresh_state demo_ready)) =
     observe (fresh_state demo_ready\<lparr>ps_out := frame (wire (packet_ok (Some (JNum (NInt 7))) (js ''closing''))),
        ps_life := Exited 0\<rparr>)"
  using close_lengths packet_close [of "fresh_state demo_ready" "wire close_request" close_request "Some (JNum (NInt 7))"
      demo_host "[1, 2]" "[[3]]"] plain_close
  by (simp add: wire_def wire_roundtrip) (simp add: close_request_def get_prop_def)

section \<open>Answers\<close>

definition call_request :: "jv \<times> jstr \<times> jstr list \<Rightarrow> jv" where
  "call_request q = JObj [(js ''id'', fst q), (js ''op'', str ''call''),
     (js ''fn'', JStr (fst (snd q))), (js ''args'', JArr (map JStr (snd (snd q))))]"

definition call_reply :: "'s service \<Rightarrow> jv \<times> jstr \<times> jstr list \<Rightarrow> jv" where
  "call_reply sv q = packet_ok (Some (fst q)) (service_answer sv (snd q))"

lemma plain_call_request: "plain (fst q) \<Longrightarrow> plain (call_request q)"
proof -
  have "own_order [js ''id'', js ''op'', js ''fn'', js ''args'']"
    by (rule own_order_words) (simp_all add: is_digit_def)
  then show "plain (fst q) \<Longrightarrow> plain (call_request q)" by (simp add: call_request_def list_all_iff)
qed

text \<open>A request the service can answer, with request and reply short enough for a frame.\<close>

definition good_request :: "'s service \<Rightarrow> jv \<times> jstr \<times> jstr list \<Rightarrow> bool" where
  "good_request sv q \<longleftrightarrow> plain (fst q) \<and> answerable sv (snd q)
     \<and> map_of arity_table (fst (snd q)) = Some (length (snd (snd q)))
     \<and> fits_frame (call_request q) \<and> fits_frame (call_reply sv q)"

lemma packet_putString_string:
  "packet_putString E (JStr s) = put_bytes E (max (length (utf8_encode s)) 1) (utf8_encode s)"
  by (simp add: fun_eq_iff packet_putString_def Let_def)

lemma callGraphLaw_answers:
  assumes "serves (ph_exports H) sv" "sv_idle sv st" "good_request sv q"
  shows "\<exists>t. callGraphLaw H (Some (JStr (fst (snd q)))) (Some (JArr (map JStr (snd (snd q))))) st
      = (t, Inr (service_answer sv (snd q))) \<and> sv_idle sv t"
proof -
  obtain fn ss where q: "snd q = (fn, ss)" by fastforce
  have c: "answerable sv (fn, ss)" "map_of arity_table fn = Some (length ss)"
    using assms(3) q by (simp_all add: good_request_def)
  obtain t where t: "string_call (ph_exports H) (\<lambda>s. put_bytes (ph_exports H) (max (length (utf8_encode s)) 1) (utf8_encode s))
      fn ss st = (t, Inr (service_answer sv (fn, ss)))" "sv_idle sv t"
    using exchange_answers [OF assms(1,2) c(1), of "\<lambda>b. max (length b) 1"] by auto
  have "callGraphLaw H (Some (JStr fn)) (Some (JArr (map JStr ss))) =
      packet_exchange (ph_exports H) fn (Some (JArr (map JStr ss)))"
    using c(2) by (simp add: callGraphLaw_def to_string_opt_def arity_guard_def arity_of_def length_prop_def)
  also have "\<dots> = string_call (ph_exports H) (\<lambda>s. put_bytes (ph_exports H) (max (length (utf8_encode s)) 1) (utf8_encode s)) fn ss"
    by (simp add: packet_exchange_def packet_iterate_def string_call_def push_args_map packet_putString_string)
  finally show ?thesis using t q by simp
qed

lemma packet_serve_answers:
  assumes "serves (ph_exports H) sv" "sv_idle sv (ps_inst st)" "good_request sv q" "ps_life st = Alive"
  shows "\<exists>t. packet_serve H (wire (call_request q)) st
      = st\<lparr>ps_inst := t, ps_out := ps_out st @ frame (wire (call_reply sv q))\<rparr> \<and> sv_idle sv t"
proof -
  have good: "plain (fst q)" "fits_frame (call_request q)" "fits_frame (call_reply sv q)"
    using assms(3) by (simp_all add: good_request_def)
  obtain t where t: "callGraphLaw H (Some (JStr (fst (snd q)))) (Some (JArr (map JStr (snd (snd q))))) (ps_inst st)
      = (t, Inr (service_answer sv (snd q)))" "sv_idle sv t"
    using callGraphLaw_answers [OF assms(1,2,3)] by blast
  have "json_parse (utf8_decode (wire (call_request q))) = Inr (call_request q)"
    by (simp add: wire_def wire_roundtrip plain_call_request good(1))
  moreover have "packet_handle H (call_request q) (ps_inst st) = (t, Inr (call_reply sv q))"
    using t(1) by (simp add: packet_handle_def call_request_def get_prop_def call_reply_def bindC_def)
  moreover have "get_prop (call_request q) (js ''op'') = Inr (Some (str ''call''))"
    by (simp add: call_request_def get_prop_def)
  ultimately show ?thesis
    using good(3) assms(4) t(2)
    by (intro exI [of _ t])
       (simp add: packet_serve_def packet_payload_def packet_request_def writeFrame_def fits_frame_def wire_def)
qed

lemma packet_spec_answers:
  assumes "serves (ph_exports H) sv" "sv_idle sv (ps_inst st)" "list_all (good_request sv) qs" "ps_life st = Alive"
  shows "\<exists>t. packet_spec H (map (\<lambda>q. wire (call_request q)) qs) st
      = st\<lparr>ps_inst := t, ps_out := ps_out st @ framed (map (\<lambda>q. wire (call_reply sv q)) qs)\<rparr> \<and> sv_idle sv t"
  using assms(2-)
proof (induction qs arbitrary: st)
  case Nil
  then show ?case by (intro exI [of _ "ps_inst st"]) simp
next
  case (Cons q qs)
  have q: "good_request sv q" "list_all (good_request sv) qs" using Cons.prems(2) by simp_all
  obtain t where t: "packet_serve H (wire (call_request q)) st
      = st\<lparr>ps_inst := t, ps_out := ps_out st @ frame (wire (call_reply sv q))\<rparr>" "sv_idle sv t"
    using packet_serve_answers [OF assms(1) Cons.prems(1) q(1) Cons.prems(3)] by blast
  let ?st = "st\<lparr>ps_inst := t, ps_out := ps_out st @ frame (wire (call_reply sv q))\<rparr>"
  obtain u where "packet_spec H (map (\<lambda>q. wire (call_request q)) qs) ?st
      = ?st\<lparr>ps_inst := u, ps_out := ps_out ?st @ framed (map (\<lambda>q. wire (call_reply sv q)) qs)\<rparr>" "sv_idle sv u"
    using Cons.IH [of ?st] t(2) q(2) Cons.prems(3) by auto
  then show ?case using t(1) by (intro exI [of _ u]) simp
qed

text \<open>
  C3: a client that writes frames with calls the module can answer, cut into any chunks, reads one frame per
  call, in order, each with the id of its call and the module's answer; the process stays alive.
\<close>

theorem packet_answers:
  assumes "serves (ph_exports H) sv" "sv_idle sv (ps_inst st)" "ps_life st = Alive" "ps_buffer st = []"
    and "list_all (good_request sv) qs" "concat chunks = framed (map (\<lambda>q. wire (call_request q)) qs)"
  shows "ps_out (packet_feed H chunks st) = ps_out st @ framed (map (\<lambda>q. wire (call_reply sv q)) qs)
      \<and> ps_life (packet_feed H chunks st) = Alive"
proof -
  have "list_all (\<lambda>v. plain v \<and> fits_frame v) (map call_request qs)"
    using assms(5) by (auto simp: list_all_iff good_request_def plain_call_request)
  from json_wire.stream_frames [OF this packet_take_Nil]
  have frames: "read_frames (concat chunks) = (map (\<lambda>q. wire (call_request q)) qs, [])"
    using assms(6) by (simp add: comp_def)
  obtain t where spec: "packet_spec H (map (\<lambda>q. wire (call_request q)) qs) st
      = st\<lparr>ps_inst := t, ps_out := ps_out st @ framed (map (\<lambda>q. wire (call_reply sv q)) qs)\<rparr>"
    using packet_spec_answers [OF assms(1,2,5,3)] by blast
  have "observe (packet_feed H chunks st) =
      observe ((packet_spec H (map (\<lambda>q. wire (call_request q)) qs) st)\<lparr>ps_buffer := []\<rparr>)"
    using feed_refines_spec [of st H chunks] assms(4) frames by simp
  also have "\<dots> = st\<lparr>ps_inst := t, ps_out := ps_out st @ framed (map (\<lambda>q. wire (call_reply sv q)) qs), ps_buffer := []\<rparr>"
    using assms(3) by (simp add: spec observe_def)
  finally have obs: "observe (packet_feed H chunks st)
      = st\<lparr>ps_inst := t, ps_out := ps_out st @ framed (map (\<lambda>q. wire (call_reply sv q)) qs), ps_buffer := []\<rparr>" .
  then have life: "ps_life (packet_feed H chunks st) = Alive"
    by (metis assms(3) observe_life packet_state.select_convs(4) packet_state.surjective
        packet_state.update_convs(1-3))
  then show ?thesis using obs by (simp add: observe_def)
qed

definition demo_call :: "jv \<times> jstr \<times> jstr list" where
  "demo_call = (JNum (NInt 7), js ''graph_hash'', [js ''ttl''])"

lemma demo_call_texts:
  "stringify (call_request demo_call) = js ''{\"id\":7,\"op\":\"call\",\"fn\":\"graph_hash\",\"args\":[\"ttl\"]}''"
  "stringify (call_reply demo_service demo_call) = js ''{\"id\":7,\"ok\":true,\"result\":\"ttl\"}''"
  by (simp_all add: demo_call_def call_request_def call_reply_def demo_answer packet_ok_def packet_id_def ok_field_def
      stringify.simps quote_quiet quiet_js json_num_def int_text_def nat_text_def dec_digits.simps)
     (simp_all add: js_def)

lemma demo_call_good: "good_request demo_service demo_call"
proof -
  have "fits_frame (call_request demo_call)" "fits_frame (call_reply demo_service demo_call)"
    by (simp_all add: fits_frame_def wire_def demo_call_texts length_utf8_ascii)
  then show ?thesis
    by (simp add: good_request_def) (simp add: demo_call_def demo_answerable arity_table_def)
qed

text \<open>The call cut in two inside the header.\<close>

theorem packet_answers_witness:
  "ps_out (packet_feed demo_host [take 3 (frame (wire (call_request demo_call))), drop 3 (frame (wire (call_request demo_call)))]
       (fresh_state demo_ready))
   = frame (utf8_encode (js ''{\"id\":7,\"ok\":true,\"result\":\"ttl\"}''))"
  using packet_answers [of demo_host demo_service "fresh_state demo_ready" "[demo_call]"
      "[take 3 (frame (wire (call_request demo_call))), drop 3 (frame (wire (call_request demo_call)))]"]
    demo_serves [of packet_imports] demo_call_good
  by (simp add: demo_host_def wire_def demo_call_texts)

end
