(* ===== verification/Packet_Progress.thy ===== *)
theory Packet_Progress
  imports Packet_Facts
begin

text \<open>
  The long-lived host does not hang: the loop of a data event ends after at most one turn per four bytes
  of the buffer, and from every state in which it runs further input makes it reply or end.
\<close>

section \<open>The loop of a data event\<close>

text \<open>At most \<open>n\<close> tests of the loop; None when it would go on.\<close>

fun drain_within :: "nat \<Rightarrow> 's packet_host \<Rightarrow> 's packet_state \<Rightarrow> 's packet_state option" where
  "drain_within 0 H st = None"
| "drain_within (Suc n) H st =
     (if ps_life st \<noteq> Alive then Some st
      else case packet_take (ps_buffer st) of
        None \<Rightarrow> Some st
      | Some (payload, rest) \<Rightarrow> drain_within n H (packet_payload H payload (st\<lparr>ps_buffer := rest\<rparr>)))"

lemma packet_take_shrinks: "packet_take b = Some (p, r) \<Longrightarrow> length r + 4 \<le> length b"
  by (auto simp: packet_take_def Let_def split: if_splits)

lemma drain_within_enough:
  "length (ps_buffer st) div 4 < n \<Longrightarrow> drain_within n H st = Some (packet_drain H st)"
proof (induction n arbitrary: st)
  case (Suc n)
  show ?case
  proof (cases "ps_life st = Alive")
    case True
    show ?thesis
    proof (cases "packet_take (ps_buffer st)")
      case None
      then show ?thesis using True by (simp add: packet_drain.simps [of H st])
    next
      case (Some pr)
      then obtain p r where t: "packet_take (ps_buffer st) = Some (p, r)" by (cases pr) simp
      have "drain_within n H (packet_payload H p (st\<lparr>ps_buffer := r\<rparr>))
          = Some (packet_drain H (packet_payload H p (st\<lparr>ps_buffer := r\<rparr>)))"
        using packet_take_shrinks [OF t] Suc.prems by (intro Suc.IH) simp
      then show ?thesis using True t by (simp add: packet_drain.simps [of H st])
    qed
  qed simp
qed simp

lemma packet_drain_idle:
  "ps_life (packet_drain H st) \<noteq> Alive \<or> packet_take (ps_buffer (packet_drain H st)) = None"
  by (cases "ps_life (packet_drain H st) = Alive") (simp_all add: observe_drain_residue)

text \<open>
  C21: the loop of a data event ends. However many frames have piled up in the buffer, the loop is left after at
  most one test more than a quarter of the bytes, with nothing left to do: running it again changes
  nothing.
\<close>

theorem packet_drain_terminates:
  "drain_within (length (ps_buffer st) div 4 + 1) H st = Some (packet_drain H st)
   \<and> packet_drain H (packet_drain H st) = packet_drain H st"
  using drain_within_enough [of st "length (ps_buffer st) div 4 + 1" H] packet_drain_idle [of H st]
  by (auto simp: packet_drain.simps [of H "packet_drain H st"])

section \<open>Every unfinished frame can be finished\<close>

lemma be32_value_append: "be32_value (xs @ [0]) = be32_value xs * 256"
  by (simp add: be32_value_def)

lemma frame_completion:
  assumes "packet_take b = None"
  shows "\<exists>c p. b @ c = frame p \<and> length p < 2 ^ 32"
proof -
  define n where "n = be32_value (take 4 (b @ replicate 4 0))"
  define c :: "byte list" where "c = replicate (4 - length b) 0 @ replicate (n - (length b - 4)) 0"
  have h: "take 4 (b @ c) = take 4 (b @ replicate 4 0)" by (auto simp: c_def min_def)
  have n: "length (b @ c) = 4 + n"
  proof (cases "length b < 4")
    case False
    then have "length b < 4 + n" using assms by (auto simp: n_def packet_take_def Let_def split: if_splits)
    then show ?thesis using False by (simp add: c_def)
  qed (simp add: c_def)
  then have "packet_take (b @ c) = Some (take n (drop 4 (b @ c)), [])"
    unfolding packet_take_def h n_def [symmetric] Let_def by simp
  then show ?thesis by (metis append_Nil2 packet_take_iff)
qed

text \<open>
  C22: the host is never stuck. In every state in which it runs and waits for input, whatever bytes of an
  unfinished frame it holds, there are bytes that complete the frame; having read them it has
  replied under the id of that request or has ended, and its buffer is empty.
\<close>

theorem packet_never_stuck:
  assumes "ps_life st = Alive" "packet_take (ps_buffer st) = None"
  shows "\<exists>chunk p. ps_buffer st @ chunk = frame p
      \<and> answers (request_id p) st (packet_data H chunk st) \<and> ps_buffer (packet_data H chunk st) = []"
proof -
  obtain chunk p where c: "ps_buffer st @ chunk = frame p" "length p < 2 ^ 32"
    using frame_completion [OF assms(2)] by blast
  have t: "packet_take (frame p) = Some (p, [])" using packet_take_frame [OF c(2), of "[]"] by simp
  let ?st = "packet_payload H p (st\<lparr>ps_buffer := []\<rparr>)"
  have "packet_drain H ?st = ?st" by (simp add: packet_drain.simps [of H ?st])
  then have "packet_data H chunk st = ?st"
    using assms(1) t c(1) by (simp add: packet_data_def packet_drain.simps [of H "st\<lparr>ps_buffer := frame p\<rparr>"])
  moreover have "answers (request_id p) st ?st"
    using packet_payload_answers [of "st\<lparr>ps_buffer := []\<rparr>" p H] assms(1) answers_out [of "st\<lparr>ps_buffer := []\<rparr>" st]
    by simp
  ultimately show ?thesis using c(1) by (intro exI [of _ chunk] exI [of _ p]) simp
qed

theorem packet_never_stuck_witness:
  "\<exists>chunk p. [0, 0] @ chunk = frame p
      \<and> answers (request_id p) ((fresh_state demo_ready)\<lparr>ps_buffer := [0, 0]\<rparr>)
          (packet_data demo_host chunk ((fresh_state demo_ready)\<lparr>ps_buffer := [0, 0]\<rparr>))"
  using packet_never_stuck [of "(fresh_state demo_ready)\<lparr>ps_buffer := [0, 0]\<rparr>" demo_host]
  by (auto simp: packet_take_def)

end
