(* ===== verification/Abi_Bounds.thy ===== *)
theory Abi_Bounds
  imports Abi_Demo
begin

text \<open>
  Where machine arithmetic shows through: the deterministic fill computed in doubles, and 32-bit
  addresses that JavaScript reads as signed numbers.
\<close>

section \<open>The deterministic fill\<close>

lemma bitlen_eq: "2 ^ k \<le> n \<Longrightarrow> n < 2 ^ Suc k \<Longrightarrow> bitlen n = Suc k"
proof (induction k arbitrary: n)
  case 0
  then have "n = 1" by simp
  then show ?case by (simp add: bitlen.simps)
next
  case (Suc k)
  then have "bitlen (n div 2) = Suc k" by (intro Suc.IH) auto
  then show ?case using Suc.prems by (simp add: bitlen.simps [of n])
qed

text \<open>The first product above \<open>2^53\<close> is even, so still exact; the next one is rounded.\<close>

lemma products_54_bits:
  "js_mul 3393264 2654435761 = NInt 9007201308113904"
  "js_mul 3393265 2654435761 = NInt 9007203962549664"
proof -
  have "bitlen 9007201308113904 = 54" "bitlen 9007203962549665 = 54" "bitlen 1 = 1"
    using bitlen_eq [of 53 9007201308113904] bitlen_eq [of 53 9007203962549665] bitlen_eq [of 0 1]
    by simp_all
  then have "last_place 9007201308113904 1 = 1" "last_place 9007203962549665 1 = 1"
    by (simp_all add: last_place_def scaled_def)
  then show "js_mul 3393264 2654435761 = NInt 9007201308113904"
    "js_mul 3393265 2654435761 = NInt 9007203962549664"
    by (simp_all add: js_mul_def to_double_def double_of_ratio_def scaled_def round_half_even_def)
qed

lemma byte_of_mod: "(of_int (x mod 256) :: byte) = of_int x"
  by (simp add: word_of_int_eq_iff take_bit_eq_mod)

lemma fill_byte_exact:
  assumes "i \<le> 3393264"
  shows "fill_byte i = of_nat (i * 2654435761)"
proof (cases "i = 3393264")
  case True
  then show ?thesis by (simp add: fill_byte_def products_54_bits)
next
  case False
  then have "int i * 2654435761 \<le> 3393263 * 2654435761" using assms by (intro mult_right_mono) simp_all
  then have "js_mul (int i) 2654435761 = NInt (int i * 2654435761)"
    by (intro js_mul_exact) simp
  then have "fill_byte i = of_int ((int i * 2654435761) mod 256)"
    by (simp add: fill_byte_def)
  also have "\<dots> = of_int (int i * 2654435761)"
    by (rule byte_of_mod)
  finally show ?thesis by simp
qed

text \<open>
  C33: up to 3393265 bytes the fill is the documented sequence \<open>byte(i) = (i * 2654435761) mod 256\<close> in
  exact arithmetic, the bytes before and after the view are kept, and the fill does not depend on
  anything but its length: the hosts are reproducible.
\<close>

theorem fill_documented_sequence:
  assumes "lm_bound l = Bound" "0 \<le> sint ptr" "0 \<le> sint len" "sint ptr + sint len \<le> int (length (lm_bytes l))"
    and "sint len \<le> 3393265"
  shows "\<exists>l'. fill_deterministic [ptr, len] l = (l', Inr ())
     \<and> lm_bytes l' = take (nat (sint ptr)) (lm_bytes l)
         @ map (\<lambda>i. of_nat (i * 2654435761)) [0..<nat (sint len)]
         @ drop (nat (sint ptr) + nat (sint len)) (lm_bytes l)"
proof -
  have "map fill_byte [0..<nat (sint len)] = map (\<lambda>i. of_nat (i * 2654435761)) [0..<nat (sint len)]"
    using assms(5) by (intro map_cong refl fill_byte_exact) auto
  then show ?thesis
    using assms(1-4) by (simp add: fill_deterministic_def fill_view_def arg_int_def put_at_def Let_def)
qed

theorem fill_documented_sequence_witness:
  "\<exists>l'. fill_deterministic [1, 3] \<lparr>lm_bytes = [9, 9, 9, 9, 9], lm_bound = Bound, lm_rng = 0\<rparr> = (l', Inr ())
     \<and> lm_bytes l' = [9, 0, 177, 98, 9]"
proof -
  have bytes: "(2654435761 :: byte) = 177" "(354 :: byte) = 98" by simp_all
  show ?thesis
    using fill_documented_sequence [of "\<lparr>lm_bytes = [9, 9, 9, 9, 9], lm_bound = Bound, lm_rng = 0\<rparr>" 1 3]
    by (simp add: upt_rec bytes)
qed

text \<open>Above \<open>2^53\<close> the last place of a double is worth at least 2, so a rounded product is even.\<close>

lemma bitlen_gt: "2 ^ k \<le> n \<Longrightarrow> k < bitlen n"
proof (induction k arbitrary: n)
  case 0
  then show ?case by (simp add: bitlen.simps [of n])
next
  case (Suc k)
  then have "k < bitlen (n div 2)" by (intro Suc.IH) auto
  moreover have "0 < n" using Suc.prems by (rule less_le_trans [rotated]) simp
  ultimately show ?case by (simp add: bitlen.simps [of n])
qed

lemma last_place_above_53:
  assumes "2 ^ 53 \<le> n"
  shows "1 \<le> last_place n 1"
proof -
  have len: "53 < bitlen n" using bitlen_gt [OF assms] .
  have one: "bitlen 1 = 1" by (simp add: bitlen.simps)
  show ?thesis
  proof (cases "bitlen n = 54")
    case True
    then show ?thesis using assms one by (simp add: last_place_def scaled_def)
  next
    case False
    then have "1 \<le> int (bitlen n) - int (bitlen 1) - 53" using len one by simp
    then show ?thesis unfolding last_place_def Let_def by (auto split: prod.split)
  qed
qed

lemma large_product_even:
  assumes "2 ^ 53 < int i * c"
  shows "(\<exists>n. even n \<and> js_mul (int i) c = NInt n) \<or> js_mul (int i) c = NInf False"
proof -
  let ?p = "int i * c" and ?e = "last_place (nat (int i * c)) 1"
  have "(2 :: nat) ^ 53 \<le> nat ?p" using assms by simp
  then have e: "1 \<le> ?e" by (rule last_place_above_53)
  then have "even ((2 :: int) ^ nat ?e)" by simp
  moreover have "js_mul (int i) c = double_of_ratio False (nat ?p) 1"
    using assms by (simp add: js_mul_def to_double_def)
  ultimately show ?thesis
    using e by (auto simp: double_of_ratio_def Let_def split: prod.split)
qed

lemma byte_parity: "(of_int x :: byte) = of_int y \<Longrightarrow> even x = even y"
proof -
  assume "(of_int x :: byte) = of_int y"
  then have "x mod 256 = y mod 256" by (simp add: word_of_int_eq_iff take_bit_eq_mod)
  then show ?thesis by presburger
qed

lemma fill_byte_odd:
  assumes "odd i" "3393265 \<le> i"
  shows "fill_byte i \<noteq> of_nat (i * 2654435761)"
proof -
  have "3393265 * 2654435761 \<le> int i * 2654435761" using assms(2) by simp
  then have "2 ^ 53 < int i * 2654435761" by simp
  from large_product_even [OF this] obtain n where n: "even n" "fill_byte i = of_int n"
  proof
    assume "js_mul (int i) 2654435761 = NInf False"
    then have "fill_byte i = of_int 0" by (simp add: fill_byte_def)
    then show ?thesis using that [of 0] by simp
  next
    assume "\<exists>n. even n \<and> js_mul (int i) 2654435761 = NInt n"
    then obtain n where "even n" "js_mul (int i) 2654435761 = NInt n" by blast
    then show ?thesis using that [of n] by (simp only: fill_byte_def num.case byte_of_mod)
  qed
  have "odd (int i * 2654435761)" using assms(1) by simp
  then have "(of_int n :: byte) \<noteq> of_int (int i * 2654435761)" using n(1) byte_parity by blast
  then show ?thesis using n(2) by simp
qed

text \<open>
  C34: beyond that the fill is not the documented sequence. When the view is longer than 3393265 bytes, the byte
  at every odd index from 3393265 on differs from \<open>(i * 2654435761) mod 256\<close>: the exact product is odd and
  needs more than 53 bits, so the double the host computes instead is even.
\<close>

theorem fill_diverges:
  assumes "lm_bound l = Bound" "0 \<le> sint ptr" "0 \<le> sint len" "sint ptr + sint len \<le> int (length (lm_bytes l))"
    and "odd i" "3393265 \<le> i" "int i < sint len"
  shows "\<exists>l'. fill_deterministic [ptr, len] l = (l', Inr ())
     \<and> lm_bytes l' ! (nat (sint ptr) + i) \<noteq> of_nat (i * 2654435761)"
proof -
  have i: "i < nat (sint len)" using assms(7) by simp
  have p: "nat (sint ptr) \<le> length (lm_bytes l)" using assms(2-4) by simp
  have "put_at (lm_bytes l) (nat (sint ptr)) (map fill_byte [0..<nat (sint len)]) ! (nat (sint ptr) + i) = fill_byte i"
    using i p by (simp add: put_at_def nth_append min_absorb2)
  then show ?thesis
    using assms(1-4) fill_byte_odd [OF assms(5,6)]
    by (simp add: fill_deterministic_def fill_view_def arg_int_def Let_def)
qed

text \<open>A view of 3393266 bytes: its last byte is 160, and 161 in the documented sequence.\<close>

theorem fill_diverges_witness:
  "\<exists>l'. fill_deterministic [0, 3393266] \<lparr>lm_bytes = replicate 3393266 0, lm_bound = Bound, lm_rng = 0\<rparr> = (l', Inr ())
     \<and> lm_bytes l' ! 3393265 \<noteq> 161"
proof -
  have byte: "(9007203962549665 :: byte) = 161" by simp
  show ?thesis
    using fill_diverges [of "\<lparr>lm_bytes = replicate 3393266 0, lm_bound = Bound, lm_rng = 0\<rparr>" 0 3393266 3393265]
    by (simp add: byte)
qed

section \<open>Addresses above 2 GiB\<close>

lemma sint_high:
  assumes "2 ^ 31 \<le> unat (w :: i32)"
  shows "sint w = uint w - 2 ^ 32"
proof -
  have lt: "uint w < 2 ^ 32" using uint_lt2p [of w] by simp
  have ge: "2 ^ 31 \<le> uint w" using of_nat_mono [OF assms, where 'a = int] by simp
  have "bit (uint w) 31"
  proof -
    have "uint w div 2 ^ 31 = 1" using lt ge by (auto intro!: int_div_pos_eq [of _ _ _ "uint w - 2 ^ 31"])
    then show ?thesis by (simp add: bit_iff_odd)
  qed
  then show ?thesis
    unfolding sint_uint using lt
    by (simp add: signed_take_bit_eq_take_bit_minus take_bit_int_eq_self)
qed

text \<open>
  An argument block the allocator places at or above 2 GiB cannot be used: the address comes back to
  JavaScript as a negative number and the copy fails with a RangeError, however large the memory is.
\<close>

theorem high_argument_rejected:
  assumes "call_export E malloc_name [of_nat n, 1] st = (t, Inr p)" "2 ^ 31 \<le> unat p"
    and "ex_get E (js ''memory'') = Some Memory"
  shows "put_bytes E n b st = (t, Inl (Fault Out_of_range))"
proof -
  have "sint p < 0"
    using sint_high [OF assms(2)] uint_lt2p [of p] by simp
  then show ?thesis
    using assms(1,3) by (simp add: put_bytes_def mem_set_def mem_view_def bindC_def)
qed

definition high_E :: "unit exports_obj" where
  "high_E = \<lparr>ex_table = [(js ''memory'', Memory), (malloc_name, Func (\<lambda>imp args st. (st, Inr 0x80000000)))],
     ex_imports = (\<lambda>m k. None)\<rparr>"

theorem high_argument_rejected_witness:
  "put_bytes high_E 1 [42] demo_ready = (demo_ready, Inl (Fault Out_of_range))"
  by (rule high_argument_rejected [where p = "0x80000000"])
     (simp_all add: high_E_def call_export_def ex_get_def)

lemma high_slice:
  assumes "2 ^ 31 \<le> unat (r0 :: i32)" "unat r0 + len < 2 ^ 32" "unat r0 + len \<le> length m" "length m \<le> 2 ^ 32"
  shows "js_slice m (sint r0) (sint r0 + int len) = take len (drop (unat r0 - (2 ^ 32 - length m)) m)"
proof -
  obtain a where a: "unat r0 = a" by blast
  then have "uint r0 = int a" by (simp flip: a)
  then have s: "sint r0 = int a - 2 ^ 32" using sint_high [OF assms(1)] by simp
  have i: "clamp_index (length m) (sint r0) = unat r0 - (2 ^ 32 - length m)"
    using assms unfolding s a by (simp add: clamp_index_def)
  have j: "clamp_index (length m) (sint r0 + int len) = unat r0 + len - (2 ^ 32 - length m)"
    using assms unfolding s a by (simp add: clamp_index_def)
  have "unat r0 + len - (2 ^ 32 - length m) - (unat r0 - (2 ^ 32 - length m)) = len"
    using assms unfolding a by simp
  then show ?thesis unfolding js_slice_def i j Let_def by simp
qed

lemma sint_low: "unat (w :: i32) < 2 ^ 31 \<Longrightarrow> sint w = int (unat w)"
proof -
  assume lt: "unat w < 2 ^ 31"
  from of_nat_less_iff [where 'a = int, THEN iffD2, OF lt] have "uint w < 2 ^ 31" by simp
  moreover have "- (2 ^ 31) \<le> uint w" by (rule order_trans [OF _ uint_ge_0]) simp
  ultimately have "signed_take_bit 31 (uint w) = uint w"
    by (rule signed_take_bit_int_eq_self [rotated])
  then show ?thesis by (simp add: sint_uint)
qed

text \<open>
  C35: a result at or above 2 GiB is read from the wrong place. When the export leaves such an address \<open>r0\<close> and the
  length \<open>r1\<close> of a result inside a memory of \<open>n\<close> bytes in its return area, the host reads the address as
  a negative number, \<open>slice\<close> counts it from the end of the memory, and the call returns the text of the
  \<open>r1\<close> bytes that lie \<open>2^32 - n\<close> bytes lower; the right range is freed, and nothing is reported.
\<close>

theorem high_result_misread:
  assumes "ex_get E (js ''memory'') = Some Memory" "call_export E fn (rp # args) st = (t, Inr x)"
    and "0 \<le> sint rp" "sint rp + 8 \<le> int (length (mem_of t))"
    and "return_word t (sint rp) = r0" "return_word t (sint rp + 4) = r1"
    and "2 ^ 31 \<le> unat r0" "unat r0 + unat r1 \<le> length (mem_of t)" "length (mem_of t) < 2 ^ 32"
    and "call_export E sp_name [16] t = (u, Inr y)" "call_export E free_name [r0, r1, 1] u = (v, Inr z)"
  shows "finish_call E fn rp args st =
     (v, Inr (text_decode (take (unat r1) (drop (unat r0 - (2 ^ 32 - length (mem_of t))) (mem_of t)))))"
proof -
  have word: "get_int32 E off t = (t, Inr (sint (return_word t off)))"
    if "0 \<le> off" "off + 4 \<le> int (length (mem_of t))" for off
    using that assms(1) by (simp add: get_int32_def data_view_def bindC_def return_word_def)
  have r0: "get_int32 E (sint rp + 0) t = (t, Inr (sint r0))" and r1: "get_int32 E (sint rp + 4) t = (t, Inr (sint r1))"
    using word [of "sint rp + 0"] word [of "sint rp + 4"] assms(3-6) by simp_all
  have m: "mem_view E t = (t, Inr (mem_of t))" using assms(1) by (simp add: mem_view_def)
  have "unat r1 < 2 ^ 31" using assms(7-9) by simp
  then have "js_slice (mem_of t) (sint r0) (sint r0 + sint r1)
      = take (unat r1) (drop (unat r0 - (2 ^ 32 - length (mem_of t))) (mem_of t))"
    using high_slice [OF assms(7), of "unat r1" "mem_of t"] assms(8,9) by (simp add: sint_low)
  then show ?thesis
    using r0 r1 m assms(2,10,11) by (simp add: finish_call_def bindC_def)
qed

text \<open>
  A memory of 3000000000 bytes, \<open>A\<close> below 2 GiB and \<open>B\<close> above; an export that answers with the four
  bytes at 2 GiB. The host returns \<open>AAAA\<close>.
\<close>

definition high_memory :: "byte list" where
  "high_memory = [0, 0, 0, 128, 4, 0, 0, 0] @ replicate 2147483640 65 @ replicate 852516352 66"

definition high_ready :: "unit inst" where
  "high_ready = \<lparr>in_lin = \<lparr>lm_bytes = high_memory, lm_bound = Bound, lm_rng = 0\<rparr>, in_priv = ()\<rparr>"

definition idle_E :: "unit exports_obj" where
  "idle_E = \<lparr>ex_table = [(js ''memory'', Memory), (js ''f'', Func (\<lambda>imp args st. (st, Inr 0))),
       (sp_name, Func (\<lambda>imp args st. (st, Inr 0))), (free_name, Func (\<lambda>imp args st. (st, Inr 0)))],
     ex_imports = (\<lambda>m k. None)\<rparr>"

theorem high_result_misread_witness:
  "take 4 (drop 2147483648 (mem_of high_ready)) = [66, 66, 66, 66]
   \<and> finish_call idle_E (js ''f'') 0 [] high_ready = (high_ready, Inr (text_decode [65, 65, 65, 65]))"
proof
  have m: "mem_of high_ready = high_memory" "length high_memory = 3000000000"
    by (simp add: high_ready_def, simp add: high_memory_def)
  have four: "replicate 4 b = [b, b, b, b]" for b :: byte
    by (simp add: numeral_eq_Suc)
  have high: "drop 2147483648 high_memory = replicate 852516352 66"
    and low: "drop 852516352 high_memory = replicate 1294967296 65 @ replicate 852516352 66"
    unfolding high_memory_def by (simp_all only: drop_append drop_replicate list.size) simp_all
  show "take 4 (drop 2147483648 (mem_of high_ready)) = [66, 66, 66, 66]"
    unfolding m(1) high take_replicate by (simp add: four)
  have "return_word high_ready 0 = 0x80000000" "return_word high_ready 4 = 4"
    unfolding return_word_def m(1) high_memory_def by (simp_all add: le32_def)
  moreover have "call_export idle_E k args st = (st, Inr 0)" if "k \<in> {js ''f'', sp_name, free_name}" for k args st
    using that by (auto simp: idle_E_def call_export_def ex_get_def)
  moreover have "ex_get idle_E (js ''memory'') = Some Memory" by (simp add: idle_E_def ex_get_def)
  ultimately have "finish_call idle_E (js ''f'') 0 [] high_ready = (high_ready, Inr (text_decode (take 4 (drop 852516352 high_memory))))"
    using high_result_misread [of idle_E "js ''f''" 0 "[]" high_ready high_ready 0 "0x80000000" 4 high_ready 0 high_ready 0]
    by (simp add: m)
  then show "finish_call idle_E (js ''f'') 0 [] high_ready = (high_ready, Inr (text_decode [65, 65, 65, 65]))"
    unfolding low take_append take_replicate by (simp add: four)
qed

end
