(* ===== verification/Authority.thy ===== *)
theory Authority
  imports Json_Facts "HOL-Library.List_Lexorder"
begin

text \<open>
  \<open>test/support/hosts/authority_host.mjs\<close>: the authority decision on a command envelope, the
  canonical JSON its digest is taken of, and the actuator behind the gate. The clock, \<open>Date.parse\<close>,
  SHA-256 and the file system are parameters.
\<close>

section \<open>Canonical JSON\<close>

fun sequence :: "(exn + 'a) list \<Rightarrow> exn + 'a list" where
  "sequence [] = Inr []"
| "sequence (Inl e # rs) = Inl e"
| "sequence (Inr a # rs) = map_sum id (Cons a) (sequence rs)"

text \<open>
  Keys are sorted by code units. The only value that cannot be encoded is a number that is not an
  integer, so the order in which members are visited cannot be seen in the exception.
\<close>

fun canonicalJson :: "jv \<Rightarrow> exn + jstr" where
  "canonicalJson JNull = Inr (js ''null'')"
| "canonicalJson (JArr vs) =
     map_sum id (\<lambda>ss. 91 # join [44] ss @ [93]) (sequence (map canonicalJson vs))"
| "canonicalJson (JObj kvs) =
     map_sum id (\<lambda>ss. 123 # join [44] ss @ [125])
       (sequence (map (\<lambda>(k, r). map_sum id (\<lambda>t. quote k @ 58 # t) r)
          (sort_key fst (map (\<lambda>kv. (fst kv, canonicalJson (snd kv))) kvs))))"
| "canonicalJson (JStr s) = Inr (quote s)"
| "canonicalJson (JBool b) = Inr (if b then js ''true'' else js ''false'')"
| "canonicalJson (JNum n) =
     (if is_integer n then Inr (num_text n)
      else Inl (Thrown (js ''non-integer number in envelope'')))"

section \<open>The decision\<close>

definition envelope_version :: jstr where
  "envelope_version = js ''sa2a-authority-decision/1''"

definition classified :: "jstr list" where
  "classified = map js [''observe'', ''change'', ''external_do'']"

definition consequence_bearing :: "jstr list" where
  "consequence_bearing = map js [''change'', ''external_do'']"

text \<open>What \<open>trim\<close> removes: white space and line terminators.\<close>

definition is_space :: "cu \<Rightarrow> bool" where
  "is_space c \<longleftrightarrow>
     (let n = unat c in
      (9 \<le> n \<and> n \<le> 13) \<or> n = 0x20 \<or> n = 0xA0 \<or> n = 0x1680 \<or> (0x2000 \<le> n \<and> n \<le> 0x200A)
      \<or> n = 0x2028 \<or> n = 0x2029 \<or> n = 0x202F \<or> n = 0x205F \<or> n = 0x3000 \<or> n = 0xFEFF)"

definition present :: "jv option \<Rightarrow> bool" where
  "present v = (case v of Some (JStr s) \<Rightarrow> \<not> list_all is_space s | _ \<Rightarrow> False)"

definition same :: "jv option \<Rightarrow> jv option \<Rightarrow> bool" where
  "same left right \<longleftrightarrow> present left \<and> present right \<and> left = right"

text \<open>A clock reading and \<open>Date.parse\<close>, None being NaN.\<close>

record clock =
  date_now :: int
  date_parse :: "jstr \<Rightarrow> int option"

definition parse_instant :: "clock \<Rightarrow> jv option \<Rightarrow> int option" where
  "parse_instant C v = (case v of Some (JStr s) \<Rightarrow> date_parse C s | _ \<Rightarrow> None)"

definition expired :: "clock \<Rightarrow> jv option \<Rightarrow> jv option \<Rightarrow> bool" where
  "expired C expiresAt evaluatedAt =
     (if \<not> present evaluatedAt then True
      else case parse_instant C evaluatedAt of
        None \<Rightarrow> True
      | Some evaluated \<Rightarrow>
          (if expiresAt = None \<or> expiresAt = Some JNull then False
           else if \<not> present expiresAt then True
           else case parse_instant C expiresAt of
             None \<Rightarrow> True
           | Some expires \<Rightarrow> expires < date_now C \<or> expires < evaluated))"

text \<open>A property of an object of the envelope; only objects are asked.\<close>

definition prop_of :: "jv \<Rightarrow> string \<Rightarrow> jv option" where
  "prop_of v k = (case get_prop v (js k) of Inl e \<Rightarrow> None | Inr w \<Rightarrow> w)"

definition binds :: "clock \<Rightarrow> jv \<Rightarrow> jv \<Rightarrow> bool" where
  "binds C auth env \<longleftrightarrow>
     same (prop_of auth ''subject'') (prop_of env ''principal'')
     \<and> same (prop_of auth ''capability_id'') (prop_of env ''capability_id'')
     \<and> \<not> expired C (prop_of auth ''expires_at'') (prop_of env ''evaluated_at'')"

definition is_one_of :: "jv option \<Rightarrow> jstr list \<Rightarrow> bool" where
  "is_one_of v ks = (case v of Some (JStr s) \<Rightarrow> s \<in> set ks | _ \<Rightarrow> False)"

text \<open>The code of a refusal, or the consequence.\<close>

definition classify :: "jv \<Rightarrow> string + jv option" where
  "classify env =
     (let declared = prop_of env ''consequence''; attested = prop_of env ''capability_consequence'' in
      if \<not> present declared \<or> \<not> is_one_of declared classified then Inl ''consequence_unclassified''
      else if present attested \<and> attested \<noteq> declared then Inl ''consequence_unattested''
      else if \<not> is_one_of declared consequence_bearing \<and> attested \<noteq> declared
      then Inl ''consequence_unattested''
      else Inr declared)"

datatype decision = Decision string string

definition refused :: "string \<Rightarrow> decision" where
  "refused code' = Decision ''REFUSED_AUTHORITY'' code'"

definition admitted :: decision where
  "admitted = Decision ''ADMITTED'' ''authority_admitted''"

fun is_object :: "jv \<Rightarrow> bool" where
  "is_object (JObj _) = True"
| "is_object _ = False"

text \<open>\<open>undefined\<close>, as an absent envelope of a test case, is not an object either.\<close>

definition verdict :: "clock \<Rightarrow> jv option \<Rightarrow> decision" where
  "verdict C envelope =
     (case envelope of
        None \<Rightarrow> refused ''decision_envelope_unrecognized''
      | Some env \<Rightarrow>
          (if prop_of env ''envelope_version'' \<noteq> Some (JStr envelope_version)
           then refused ''decision_envelope_unrecognized''
           else if \<not> present (prop_of env ''principal'') \<or> \<not> present (prop_of env ''capability_id'')
           then refused ''envelope_incomplete''
           else case classify env of
             Inl code' \<Rightarrow> refused code'
           | Inr consequence \<Rightarrow>
               (if \<not> is_one_of consequence consequence_bearing then admitted
                else case prop_of env ''authority'' of
                  None \<Rightarrow> refused ''authority_required''
                | Some auth \<Rightarrow>
                    (if auth = JNull then refused ''authority_required''
                     else if \<not> is_object auth \<or> \<not> binds C auth env then refused ''authority_mismatch''
                     else admitted))))"

section \<open>The process\<close>

text \<open>
  The state is the actuator log, None while the file does not exist, and standard output. \<open>append\<close> is
  what \<open>appendFileSync\<close> throws, if it does; \<open>clocks i\<close> is the clock at the i-th decision.
\<close>

record authority_world =
  aw_args :: "jstr list"
  aw_read :: "jstr \<Rightarrow> exn + byte list"
  aw_append :: "jstr \<Rightarrow> exn option"
  aw_clocks :: "nat \<Rightarrow> clock"
  aw_sha256 :: "byte list \<Rightarrow> jstr"

record authority_state =
  actuator_log :: "jstr option"
  printed :: jstr

definition write_out :: "jstr \<Rightarrow> (authority_state, unit) comp" where
  "write_out s st = (st\<lparr>printed := printed st @ s\<rparr>, Inr ())"

text \<open>\<open>envelope.capability_id ?? null\<close>\<close>

definition or_null :: "jv option \<Rightarrow> jv" where
  "or_null v = (case v of None \<Rightarrow> JNull | Some w \<Rightarrow> w)"

definition actuate :: "authority_world \<Rightarrow> jstr \<Rightarrow> jv \<Rightarrow> (authority_state, unit) comp" where
  "actuate A path envelope st =
     (let line = stringify (JObj [(js ''host'', JStr (js ''node'')),
                   (js ''capability_id'', or_null (prop_of envelope ''capability_id''))]) @ [10]
      in case aw_append A path of
           Some e \<Rightarrow> (st, Inl e)
         | None \<Rightarrow> (st\<lparr>actuator_log := Some (case actuator_log st of None \<Rightarrow> line | Some s \<Rightarrow> s @ line)\<rparr>, Inr ()))"

text \<open>\<open>if (decision.verdict === "ADMITTED") { actuate(...); actuatorCalls = 1; }\<close>\<close>

definition gate :: "authority_world \<Rightarrow> jstr \<Rightarrow> jv option \<Rightarrow> decision \<Rightarrow> (authority_state, nat) comp" where
  "gate A path envelope d =
     (case d of Decision v code' \<Rightarrow>
        if v = ''ADMITTED'' then bindC (actuate A path (or_null envelope)) (\<lambda>_. returnC 1) else returnC 0)"

definition digest :: "authority_world \<Rightarrow> jv \<Rightarrow> exn + jstr" where
  "digest A v = map_sum id (\<lambda>s. aw_sha256 A (utf8_encode s)) (canonicalJson v)"

definition decision_fields :: "decision \<Rightarrow> (jstr \<times> jv) list" where
  "decision_fields d =
     (case d of Decision v code' \<Rightarrow> [(js ''verdict'', JStr (js v)), (js ''code'', JStr (js code'))])"

definition calls_field :: "nat \<Rightarrow> jstr \<times> jv" where
  "calls_field n = (js ''actuator_calls'', JNum (NInt (int n)))"

definition authority_read :: "authority_world \<Rightarrow> jstr \<Rightarrow> exn + jv" where
  "authority_read A p =
     (case map_sum id utf8_decode (aw_read A p) of Inl e \<Rightarrow> Inl e | Inr s \<Rightarrow> json_parse s)"

definition authority_single :: "authority_world \<Rightarrow> jstr \<Rightarrow> jstr \<Rightarrow> (authority_state, unit) comp" where
  "authority_single A envelopePath logPath =
     bindC (liftC (authority_read A envelopePath)) (\<lambda>envelope.
     let decision = verdict (aw_clocks A 0) (Some envelope) in
     bindC (gate A logPath (Some envelope) decision) (\<lambda>calls.
     bindC (liftC (digest A envelope)) (\<lambda>h.
     write_out (stringify (JObj ((js ''host'', JStr (js ''node'')) # decision_fields decision
       @ [(js ''envelope_digest'', JStr h), calls_field calls])) @ [10]))))"

text \<open>One test case of \<open>--spec\<close> mode.\<close>

definition spec_case :: "authority_world \<Rightarrow> jstr \<Rightarrow> nat \<Rightarrow> jv \<Rightarrow> (authority_state, unit) comp" where
  "spec_case A logPath i testCase =
     bindC (liftC (get_prop testCase (js ''envelope''))) (\<lambda>envelope.
     let decision = verdict (aw_clocks A i) envelope in
     bindC (gate A logPath envelope decision) (\<lambda>calls.
     bindC (liftC (get_prop testCase (js ''name''))) (\<lambda>name.
     write_out (stringify (JObj (obj_defined
       ([(js ''host'', Some (JStr (js ''node''))), (js ''name'', name)]
        @ map (\<lambda>(k, v). (k, Some v)) (decision_fields decision @ [calls_field calls])))) @ [10]))))"

fun spec_cases :: "authority_world \<Rightarrow> jstr \<Rightarrow> nat \<Rightarrow> jv list \<Rightarrow> (authority_state, unit) comp" where
  "spec_cases A logPath i [] = returnC ()"
| "spec_cases A logPath i (c # cs) =
     bindC (spec_case A logPath i c) (\<lambda>_. spec_cases A logPath (Suc i) cs)"

text \<open>\<open>for (const testCase of spec.cases)\<close>\<close>

definition authority_spec :: "authority_world \<Rightarrow> jstr \<Rightarrow> jstr \<Rightarrow> (authority_state, unit) comp" where
  "authority_spec A specPath logPath =
     bindC (liftC (authority_read A specPath)) (\<lambda>spec.
     bindC (liftC (get_prop spec (js ''cases''))) (\<lambda>cases.
     case cases of
       Some (JArr cs) \<Rightarrow> spec_cases A logPath 0 cs
     | Some (JStr s) \<Rightarrow> spec_cases A logPath 0 (map (\<lambda>c. JStr (units_of_cp c)) (code_points s))
     | _ \<Rightarrow> throwC (Fault Not_iterable)))"

definition given :: "jstr list \<Rightarrow> nat \<Rightarrow> jstr option" where
  "given args i = (if i < length args \<and> args ! i \<noteq> [] then Some (args ! i) else None)"

text \<open>The whole process; None is the exit with status 2 after the usage line on standard error.\<close>

definition authority_main :: "authority_world \<Rightarrow> (authority_state, unit) comp option" where
  "authority_main A =
     (let args = aw_args A in
      if args \<noteq> [] \<and> hd args = js ''--spec'' then
        (case (given args 1, given args 2) of
           (Some spec, Some log) \<Rightarrow> Some (authority_spec A spec log) | _ \<Rightarrow> None)
      else
        (case (given args 0, given args 1) of
           (Some envelope, Some log) \<Rightarrow> Some (authority_single A envelope log) | _ \<Rightarrow> None))"

end
