(* ===== verification/Authority_Facts.thy ===== *)
theory Authority_Facts
  imports Authority "HOL-Library.Multiset" Host_World
begin

text \<open>
  The authority host: who is admitted, stated declaratively; what the verdict does not depend on; the
  actuator behind the gate; and the canonical JSON, which forgets the order of members and nothing else.
\<close>

section \<open>Who is admitted\<close>

text \<open>An envelope field that holds a given text, or a text that is not blank.\<close>

definition says :: "jv \<Rightarrow> string \<Rightarrow> jstr \<Rightarrow> bool" where
  "says env k s \<longleftrightarrow> prop_of env k = Some (JStr s)"

definition named :: "jv \<Rightarrow> string \<Rightarrow> jstr \<Rightarrow> bool" where
  "named env k s \<longleftrightarrow> says env k s \<and> \<not> list_all is_space s"

text \<open>The grant is not expired, neither for the host's clock nor for the envelope's own instant.\<close>

definition in_force :: "clock \<Rightarrow> jv \<Rightarrow> jv \<Rightarrow> bool" where
  "in_force C auth env \<longleftrightarrow>
     (\<exists>s at. named env ''evaluated_at'' s \<and> date_parse C s = Some at
        \<and> (prop_of auth ''expires_at'' \<in> {None, Some JNull}
           \<or> (\<exists>t until. named auth ''expires_at'' t \<and> date_parse C t = Some until
                \<and> date_now C \<le> until \<and> at \<le> until)))"

text \<open>The grant is for this principal and this capability.\<close>

definition grants :: "clock \<Rightarrow> jv \<Rightarrow> jv \<Rightarrow> bool" where
  "grants C auth env \<longleftrightarrow> is_object auth
     \<and> (\<exists>p. named env ''principal'' p \<and> says auth ''subject'' p)
     \<and> (\<exists>c. named env ''capability_id'' c \<and> says auth ''capability_id'' c)
     \<and> in_force C auth env"

definition entitled :: "clock \<Rightarrow> jv \<Rightarrow> bool" where
  "entitled C env \<longleftrightarrow>
     says env ''envelope_version'' envelope_version
     \<and> (\<exists>p. named env ''principal'' p) \<and> (\<exists>c. named env ''capability_id'' c)
     \<and> (says env ''consequence'' (js ''observe'') \<and> says env ''capability_consequence'' (js ''observe'')
        \<or> (\<exists>k. (k = js ''change'' \<or> k = js ''external_do'') \<and> says env ''consequence'' k
             \<and> (says env ''capability_consequence'' k \<or> \<not> present (prop_of env ''capability_consequence''))
             \<and> (\<exists>auth. prop_of env ''authority'' = Some auth \<and> grants C auth env)))"

lemma present_iff: "present v \<longleftrightarrow> (\<exists>s. v = Some (JStr s) \<and> \<not> list_all is_space s)"
  by (auto simp: present_def split: option.split jv.split)

lemma present_named: "present (prop_of env k) \<longleftrightarrow> (\<exists>s. named env k s)"
  by (auto simp: present_iff named_def says_def)

lemma present_js: "present (Some (JStr (js s))) \<longleftrightarrow> \<not> list_all is_space (js s)"
  by (simp add: present_def)

lemma same_iff: "same a b \<longleftrightarrow> (\<exists>s. a = Some (JStr s) \<and> b = Some (JStr s) \<and> \<not> list_all is_space s)"
  by (auto simp: same_def present_iff)

lemma expired_iff: "\<not> expired C (prop_of auth ''expires_at'') (prop_of env ''evaluated_at'') \<longleftrightarrow> in_force C auth env"
  by (auto simp: expired_def in_force_def present_iff named_def says_def parse_instant_def
      split: option.split)

lemma binds_iff: "is_object auth \<and> binds C auth env \<longleftrightarrow> grants C auth env"
  unfolding binds_def grants_def same_iff expired_iff by (auto simp: named_def says_def)

lemma refused_not_admitted [simp]: "refused c \<noteq> admitted" "admitted \<noteq> refused c"
  by (simp_all add: refused_def admitted_def)

lemma words_present [simp]:
  "present (Some (JStr (js ''observe'')))" "present (Some (JStr (js ''change'')))"
  "present (Some (JStr (js ''external_do'')))"
  by (simp_all add: present_def js_Cons is_space_def)

lemma classify_cases:
  "classify env = Inr d \<longleftrightarrow>
     d = prop_of env ''consequence''
     \<and> (says env ''consequence'' (js ''observe'') \<and> says env ''capability_consequence'' (js ''observe'')
        \<or> (\<exists>k. (k = js ''change'' \<or> k = js ''external_do'') \<and> says env ''consequence'' k
             \<and> (says env ''capability_consequence'' k \<or> \<not> present (prop_of env ''capability_consequence''))))"
  by (auto simp: classify_def Let_def is_one_of_def classified_def consequence_bearing_def says_def
      split: option.splits jv.splits)

lemma is_one_of_js: "is_one_of (Some (JStr (js k))) consequence_bearing \<longleftrightarrow> k \<in> {''change'', ''external_do''}"
  by (auto simp: is_one_of_def consequence_bearing_def)

lemma verdict_some:
  "verdict C (Some env) = admitted \<longleftrightarrow>
     says env ''envelope_version'' envelope_version
     \<and> present (prop_of env ''principal'') \<and> present (prop_of env ''capability_id'')
     \<and> (\<exists>d. classify env = Inr d
          \<and> (is_one_of d consequence_bearing \<longrightarrow>
               (\<exists>auth. prop_of env ''authority'' = Some auth \<and> grants C auth env)))"
proof -
  have "is_object auth \<Longrightarrow> auth \<noteq> JNull" for auth by auto
  then show ?thesis
    by (auto simp: verdict_def says_def binds_iff [symmetric] split: sum.split option.split)
qed

lemma verdict_admitted_iff: "verdict C (Some env) = admitted \<longleftrightarrow> entitled C env"
proof -
  have observe: "\<not> is_one_of (prop_of env ''consequence'') consequence_bearing"
    if "says env ''consequence'' (js ''observe'')"
    using that by (simp add: says_def is_one_of_js)
  have acts: "is_one_of (prop_of env ''consequence'') consequence_bearing"
    if "says env ''consequence'' k" "k = js ''change'' \<or> k = js ''external_do''" for k
    using that by (auto simp: says_def is_one_of_js)
  have "(\<exists>d. classify env = Inr d \<and> (is_one_of d consequence_bearing \<longrightarrow> Q)) \<longleftrightarrow>
      says env ''consequence'' (js ''observe'') \<and> says env ''capability_consequence'' (js ''observe'')
      \<or> (\<exists>k. (k = js ''change'' \<or> k = js ''external_do'') \<and> says env ''consequence'' k
           \<and> (says env ''capability_consequence'' k \<or> \<not> present (prop_of env ''capability_consequence'')) \<and> Q)" for Q
    unfolding classify_cases using observe acts by blast
  then show ?thesis
    by (simp only: verdict_some entitled_def present_named)
qed

definition refusal_codes :: "string set" where
  "refusal_codes = {''decision_envelope_unrecognized'', ''envelope_incomplete'', ''consequence_unclassified'',
     ''consequence_unattested'', ''authority_required'', ''authority_mismatch''}"

lemma verdict_codes: "verdict C envelope \<in> insert admitted (refused ` refusal_codes)"
  by (auto simp: refusal_codes_def verdict_def classify_def Let_def split: option.split if_splits)

text \<open>
  C5: the gate admits exactly the entitled. A command is admitted iff its envelope is of the known version
  and names a principal and a capability, and either it is an \<open>observe\<close> that the capability attests, or it is a
  \<open>change\<close> or \<open>external_do\<close> whose attestation, if there is one, agrees and whose authority is granted to that
  principal for that capability and in force; everything else is refused with one of six codes.
\<close>

theorem authority_admits_entitled:
  "(verdict C envelope = admitted \<longleftrightarrow> (\<exists>env. envelope = Some env \<and> entitled C env))
   \<and> verdict C envelope \<in> insert admitted (refused ` refusal_codes)"
proof
  show "verdict C envelope = admitted \<longleftrightarrow> (\<exists>env. envelope = Some env \<and> entitled C env)"
    by (cases envelope) (simp_all add: verdict_admitted_iff, simp add: verdict_def)
qed (rule verdict_codes)

text \<open>
  No envelope can hold an expired grant open. When the grant's expiry lies before the host's clock, a
  \<open>change\<close> or \<open>external_do\<close> is refused whatever instant the envelope gives for its own evaluation.
\<close>

theorem authority_no_backdating:
  assumes "says env ''consequence'' k" "k = js ''change'' \<or> k = js ''external_do''"
    and "prop_of env ''authority'' = Some auth" "says auth ''expires_at'' t"
    and "date_parse C t = Some until" "until < date_now C"
  shows "verdict C (Some env) \<noteq> admitted"
proof
  assume "verdict C (Some env) = admitted"
  then have "entitled C env" by (simp add: verdict_admitted_iff)
  then have "in_force C auth env"
    using assms(1-3) by (auto simp: entitled_def says_def grants_def)
  then show False using assms(4-6) by (auto simp: in_force_def says_def named_def)
qed

definition demo_clock :: clock where
  "demo_clock = \<lparr>date_now = 5, date_parse = (\<lambda>s. Some (int (length s)))\<rparr>"

definition demo_grant :: "string \<Rightarrow> jv" where
  "demo_grant t = JObj [(js ''subject'', str ''p''), (js ''capability_id'', str ''c''), (js ''expires_at'', str t)]"

definition demo_envelope :: "string \<Rightarrow> jv" where
  "demo_envelope t = JObj [(js ''envelope_version'', JStr envelope_version), (js ''principal'', str ''p''),
     (js ''capability_id'', str ''c''), (js ''consequence'', str ''change''), (js ''evaluated_at'', str ''1''),
     (js ''authority'', demo_grant t)]"

theorem authority_no_backdating_witness:
  "verdict demo_clock (Some (demo_envelope ''1234'')) \<noteq> admitted"
  by (rule authority_no_backdating [where k = "js ''change''" and auth = "demo_grant ''1234''"
        and t = "js ''1234''" and until = 4])
     (simp_all add: says_def prop_of_def get_prop_def demo_envelope_def demo_grant_def demo_clock_def)

section \<open>What the verdict does not depend on\<close>

definition agree :: "string list \<Rightarrow> jv \<Rightarrow> jv \<Rightarrow> bool" where
  "agree ks a b \<longleftrightarrow> list_all (\<lambda>k. prop_of a k = prop_of b k) ks"

definition agree_authority :: "jv option \<Rightarrow> jv option \<Rightarrow> bool" where
  "agree_authority a b \<longleftrightarrow> a = b
     \<or> (\<exists>x y. a = Some x \<and> b = Some y \<and> is_object x \<and> is_object y
          \<and> agree [''subject'', ''capability_id'', ''expires_at''] x y)"

lemma binds_agree:
  "agree [''subject'', ''capability_id'', ''expires_at''] x y \<Longrightarrow>
   agree [''principal'', ''capability_id'', ''evaluated_at''] e f \<Longrightarrow> binds C x e = binds C y f"
  by (simp add: agree_def binds_def)

text \<open>
  C36: how the caller authenticated is not consulted. The verdict depends on six fields of the envelope and
  on three fields of its authority: envelopes that agree on these get the same verdict, whatever they say of
  agent, task, command fingerprint or the source of the authority.
\<close>

theorem authority_ignores_the_rest:
  assumes "agree [''envelope_version'', ''principal'', ''capability_id'', ''consequence'',
      ''capability_consequence'', ''evaluated_at''] e f"
    and "agree_authority (prop_of e ''authority'') (prop_of f ''authority'')"
  shows "verdict C (Some e) = verdict C (Some f)"
proof -
  have eq: "prop_of e ''envelope_version'' = prop_of f ''envelope_version''"
    "prop_of e ''principal'' = prop_of f ''principal''"
    "prop_of e ''capability_id'' = prop_of f ''capability_id''" "classify e = classify f"
    using assms(1) by (simp_all add: agree_def classify_def)
  have ef: "agree [''principal'', ''capability_id'', ''evaluated_at''] e f"
    using assms(1) by (simp add: agree_def)
  have b: "binds C x e = binds C x f" for x
    by (rule binds_agree [OF _ ef]) (simp add: agree_def)
  from assms(2) consider "prop_of e ''authority'' = prop_of f ''authority''"
    | x y where "prop_of e ''authority'' = Some x" "prop_of f ''authority'' = Some y"
      "is_object x" "is_object y" "binds C x e = binds C y f"
    unfolding agree_authority_def using binds_agree [OF _ ef] by blast
  then show ?thesis
  proof cases
    case 1
    then show ?thesis by (simp only: verdict_def eq b option.case)
  next
    case 2
    then have "x \<noteq> JNull" "y \<noteq> JNull" by auto
    then show ?thesis using 2 by (simp add: verdict_def eq split: sum.split)
  qed
qed

theorem authority_ignores_the_rest_witness:
  "verdict demo_clock (Some (demo_envelope ''123456'')) =
     verdict demo_clock (Some (JObj ((js ''agent'', str ''root'')
       # (case demo_envelope ''123456'' of JObj kvs \<Rightarrow> kvs | _ \<Rightarrow> []))))"
  by (rule authority_ignores_the_rest)
     (simp_all add: agree_def prop_of_def get_prop_def demo_envelope_def agree_authority_def)

section \<open>Canonical JSON\<close>

fun integral :: "jv \<Rightarrow> bool" where
  "integral (JNum n) = is_integer n"
| "integral (JArr vs) = list_all integral vs"
| "integral (JObj kvs) = list_all (\<lambda>kv. integral (snd kv)) kvs"
| "integral _ = True"

text \<open>The value with the members of every object in the order of their keys.\<close>

fun normal :: "jv \<Rightarrow> jv" where
  "normal (JArr vs) = JArr (map normal vs)"
| "normal (JObj kvs) = JObj (sort_key fst (map (\<lambda>kv. (fst kv, normal (snd kv))) kvs))"
| "normal v = v"

definition non_integer :: exn where
  "non_integer = Thrown (js ''non-integer number in envelope'')"

lemma sequence_Inr: "sequence (map (\<lambda>x. Inr (f x)) xs) = Inr (map f xs)"
  by (induction xs) simp_all

lemma sequence_Inl:
  "\<exists>x \<in> set xs. f x = Inl e \<Longrightarrow> \<forall>x \<in> set xs. \<forall>e'. f x = Inl e' \<longrightarrow> e' = e \<Longrightarrow> sequence (map f xs) = Inl e"
proof (induction xs)
  case (Cons x xs)
  then show ?case by (cases "f x") auto
qed simp

lemma sort_key_map: "sort_key f (map g xs) = map g (sort_key (\<lambda>x. f (g x)) xs)"
proof (induction xs)
  case (Cons x xs)
  have "insort_key f (g x) (map g ys) = map g (insort_key (\<lambda>x. f (g x)) x ys)" for ys
    by (induction ys) simp_all
  then show ?case using Cons by simp
qed simp

lemma canonicalJson_normal: "integral v \<Longrightarrow> canonicalJson v = Inr (stringify (normal v))"
proof (induction v)
  case (JNum n)
  then show ?case by (cases n) (simp_all add: stringify.simps json_num_def)
next
  case (JArr vs)
  then have eq: "map canonicalJson vs = map (\<lambda>v. Inr (stringify (normal v))) vs"
    by (auto simp: list_all_iff)
  show ?case unfolding canonicalJson.simps eq sequence_Inr by (simp add: stringify.simps comp_def)
next
  case (JObj kvs)
  have ih: "canonicalJson (snd kv) = Inr (stringify (normal (snd kv)))" if "kv \<in> set kvs" for kv
  proof (rule JObj.IH [OF that])
    show "snd kv \<in> Basic_BNFs.snds kv" by (simp add: snds.intros)
    show "integral (snd kv)" using JObj.prems that by (simp add: list_all_iff)
  qed
  have "map (\<lambda>(k, r). map_sum id (\<lambda>t. quote k @ 58 # t) r) (sort_key fst (map (\<lambda>kv. (fst kv, canonicalJson (snd kv))) kvs))
      = map (\<lambda>kv. map_sum id (\<lambda>t. quote (fst kv) @ 58 # t) (canonicalJson (snd kv))) (sort_key fst kvs)"
    by (simp add: sort_key_map comp_def)
  also have "\<dots> = map (\<lambda>kv. Inr (quote (fst kv) @ 58 # stringify (normal (snd kv)))) (sort_key fst kvs)"
    by (rule map_cong) (simp_all add: ih)
  finally have eq: "map (\<lambda>(k, r). map_sum id (\<lambda>t. quote k @ 58 # t) r)
        (sort_key fst (map (\<lambda>kv. (fst kv, canonicalJson (snd kv))) kvs))
      = map (\<lambda>kv. Inr (quote (fst kv) @ 58 # stringify (normal (snd kv)))) (sort_key fst kvs)" .
  show ?case
    unfolding canonicalJson.simps eq sequence_Inr by (simp add: stringify.simps sort_key_map comp_def)
qed (simp_all add: stringify.simps)

lemma canonicalJson_fails: "\<not> integral v \<Longrightarrow> canonicalJson v = Inl non_integer"
proof -
  have only: "canonicalJson v = Inl e \<Longrightarrow> \<not> integral v" for v e
    using canonicalJson_normal [of v] by auto
  show "\<not> integral v \<Longrightarrow> canonicalJson v = Inl non_integer"
  proof (induction v)
    case (JNum n)
    then show ?case by (simp add: non_integer_def)
  next
    case (JArr vs)
    have "\<exists>v \<in> set vs. canonicalJson v = Inl non_integer"
      using JArr by (auto simp: list_all_iff)
    moreover have "\<forall>v \<in> set vs. \<forall>e. canonicalJson v = Inl e \<longrightarrow> e = non_integer"
      using JArr.IH only by fastforce
    ultimately show ?case by (simp add: sequence_Inl)
  next
    case (JObj kvs)
    have ih: "\<not> integral (snd kv) \<Longrightarrow> canonicalJson (snd kv) = Inl non_integer" if "kv \<in> set kvs" for kv
      by (rule JObj.IH [OF that]) (simp_all add: snds.intros)
    let ?g = "\<lambda>kv. map_sum id (\<lambda>t. quote (fst kv) @ 58 # t) (canonicalJson (snd kv))"
    have eq: "map (\<lambda>(k, r). map_sum id (\<lambda>t. quote k @ 58 # t) r)
        (sort_key fst (map (\<lambda>kv. (fst kv, canonicalJson (snd kv))) kvs)) = map ?g (sort_key fst kvs)"
      by (simp add: sort_key_map comp_def)
    obtain kv where "kv \<in> set kvs" "\<not> integral (snd kv)"
      using JObj.prems by (auto simp: list_all_iff)
    then have "\<exists>kv \<in> set (sort_key fst kvs). ?g kv = Inl non_integer"
      using ih [of kv] by (intro bexI [of _ kv]) simp_all
    moreover have "\<forall>kv \<in> set (sort_key fst kvs). \<forall>e. ?g kv = Inl e \<longrightarrow> e = non_integer"
    proof (intro ballI allI impI)
      fix kv e
      assume kv: "kv \<in> set (sort_key fst kvs)" and g: "?g kv = Inl e"
      then have c: "canonicalJson (snd kv) = Inl e" by (cases "canonicalJson (snd kv)") auto
      then show "e = non_integer" using only [OF c] ih [of kv] kv by simp
    qed
    ultimately have "sequence (map ?g (sort_key fst kvs)) = Inl non_integer"
      by (rule sequence_Inl)
    then show ?case unfolding canonicalJson.simps eq by simp
  qed simp_all
qed

lemma canonicalJson_eq: "canonicalJson v = (if integral v then Inr (stringify (normal v)) else Inl non_integer)"
  using canonicalJson_normal canonicalJson_fails by simp

text \<open>Values that differ in the order of the members of their objects, at any depth.\<close>

inductive reordered :: "jv \<Rightarrow> jv \<Rightarrow> bool" where
  refl: "reordered v v"
| elements: "list_all2 reordered vs ws \<Longrightarrow> reordered (JArr vs) (JArr ws)"
| members: "list_all2 (\<lambda>a b. fst a = fst b \<and> reordered (snd a) (snd b)) kvs lws \<Longrightarrow> reordered (JObj kvs) (JObj lws)"
| permuted: "mset kvs = mset lws \<Longrightarrow> distinct (map fst kvs) \<Longrightarrow> reordered (JObj kvs) (JObj lws)"
| trans: "reordered u v \<Longrightarrow> reordered v w \<Longrightarrow> reordered u w"

lemma sort_permuted:
  assumes "mset xs = mset ys" "distinct (map fst xs)"
  shows "sort_key fst xs = sort_key fst (ys :: ('k :: linorder \<times> 'v) list)"
proof (rule sort_key_inj_key_eq)
  show "mset xs = mset (sort_key fst ys)" using assms(1) by simp
  show "inj_on fst (set xs)" using assms(2) by (simp add: distinct_map)
qed simp

lemma reordered_normal: "reordered v w \<Longrightarrow> normal v = normal w \<and> integral v = integral w"
proof (induction rule: reordered.induct)
  case (elements vs ws)
  then have "map normal vs = map normal ws" "list_all integral vs = list_all integral ws"
    by (induction rule: list_all2_induct) auto
  then show ?case by simp
next
  case (members kvs lws)
  then have "map (\<lambda>kv. (fst kv, normal (snd kv))) kvs = map (\<lambda>kv. (fst kv, normal (snd kv))) lws"
    "list_all (\<lambda>kv. integral (snd kv)) kvs = list_all (\<lambda>kv. integral (snd kv)) lws"
    by (induction rule: list_all2_induct) auto
  then show ?case by (simp only: normal.simps integral.simps)
next
  case (permuted kvs lws)
  have "mset (map (\<lambda>kv. (fst kv, normal (snd kv))) kvs) = mset (map (\<lambda>kv. (fst kv, normal (snd kv))) lws)"
    using permuted(1) by simp
  then have "normal (JObj kvs) = normal (JObj lws)"
    unfolding normal.simps by (subst sort_permuted) (simp_all add: permuted(2) comp_def)
  moreover have "set kvs = set lws" using permuted(1) by (rule mset_eq_setD)
  ultimately show ?case by (simp add: list_all_iff)
qed auto

text \<open>
  C19: the digest of an envelope does not depend on the order in which its members were written: values that
  differ only in the order of members, at any depth, have the same canonical text, or both have none.
\<close>

theorem canonical_order_free:
  assumes "reordered v w"
  shows "canonicalJson v = canonicalJson w \<and> digest A v = digest A w"
  using reordered_normal [OF assms] by (simp add: canonicalJson_eq digest_def)

theorem canonical_order_free_witness:
  "canonicalJson (JObj [(js ''b'', JNull), (js ''a'', JBool True)]) = canonicalJson (JObj [(js ''a'', JBool True), (js ''b'', JNull)])"
proof -
  have "reordered (JObj [(js ''b'', JNull), (js ''a'', JBool True)]) (JObj [(js ''a'', JBool True), (js ''b'', JNull)])"
    by (rule reordered.permuted) simp_all
  then show ?thesis using canonical_order_free by blast
qed

lemma reordered_sym: "reordered v w \<Longrightarrow> reordered w v"
proof (induction rule: reordered.induct)
  case (elements vs ws)
  then have "list_all2 reordered ws vs" by (simp add: list_all2_conv_all_nth)
  then show ?case by (rule reordered.elements)
next
  case (members kvs lws)
  then have "list_all2 (\<lambda>a b. fst a = fst b \<and> reordered (snd a) (snd b)) lws kvs"
    by (simp add: list_all2_conv_all_nth)
  then show ?case by (rule reordered.members)
next
  case (permuted kvs lws)
  then have "distinct (map fst lws)" by (metis mset_map mset_eq_imp_distinct_iff)
  then show ?case using permuted(1) by (intro reordered.permuted) simp_all
qed (auto intro: reordered.refl reordered.trans)

text \<open>Integers of at most 53 bits, and objects whose keys are distinct, as those of an object always are.\<close>

fun safe :: "jv \<Rightarrow> bool" where
  "safe (JNum n) = (case n of NInt i \<Rightarrow> \<bar>i\<bar> \<le> 2 ^ 53 | _ \<Rightarrow> False)"
| "safe (JArr vs) = list_all safe vs"
| "safe (JObj kvs) = (distinct (map fst kvs) \<and> list_all (\<lambda>kv. safe (snd kv)) kvs)"
| "safe _ = True"

lemma safe_parts: "safe v \<Longrightarrow> integral v \<and> small v"
proof (induction v)
  case (JNum n)
  then show ?case by (cases n) simp_all
next
  case (JObj kvs)
  have "integral (snd kv) \<and> small (snd kv)" if "kv \<in> set kvs" for kv
    using JObj.IH [OF that] JObj.prems that by (simp add: list_all_iff snds.intros)
  then show ?case by (simp add: list_all_iff)
qed (auto simp: list_all_iff)

lemma reordered_members:
  assumes "\<And>kv. kv \<in> set kvs \<Longrightarrow> reordered (snd kv) (f (snd kv))"
    and "mset (map (\<lambda>kv. (fst kv, f (snd kv))) kvs) = mset lws" "distinct (map fst kvs)"
  shows "reordered (JObj kvs) (JObj lws)"
proof (rule reordered.trans)
  show "reordered (JObj kvs) (JObj (map (\<lambda>kv. (fst kv, f (snd kv))) kvs))"
    using assms(1) by (intro reordered.members) (simp add: list_all2_conv_all_nth)
  show "reordered (JObj (map (\<lambda>kv. (fst kv, f (snd kv))) kvs)) (JObj lws)"
    using assms(2,3) by (intro reordered.permuted) (simp_all add: comp_def)
qed

lemma reordered_to_normal: "safe v \<Longrightarrow> reordered v (normal v)"
proof (induction v)
  case (JArr vs)
  then show ?case
    by (auto simp: list_all2_conv_all_nth list_all_iff intro!: reordered.elements)
next
  case (JObj kvs)
  have "reordered (snd kv) (normal (snd kv))" if "kv \<in> set kvs" for kv
    using JObj.IH [OF that] JObj.prems that by (simp add: list_all_iff snds.intros)
  then show ?case using JObj.prems by (simp add: reordered_members [where f = normal])
qed (simp_all add: reordered.refl)

lemma safe_normal: "safe v \<Longrightarrow> safe (normal v)"
proof (induction v)
  case (JObj kvs)
  let ?kvs = "sort_key fst (map (\<lambda>kv. (fst kv, normal (snd kv))) kvs)"
  have "mset (map fst ?kvs) = mset (map fst kvs)" by (simp add: comp_def multiset.map_comp)
  from mset_eq_imp_distinct_iff [OF this] have "distinct (map fst ?kvs)"
    using JObj.prems by (simp only: safe.simps)
  moreover have "safe (normal (snd kv))" if "kv \<in> set kvs" for kv
    using JObj.IH [OF that] JObj.prems that by (simp add: list_all_iff snds.intros)
  ultimately show ?case by (simp add: list_all_iff)
qed (auto simp: list_all_iff)

lemma mset_obj_put: "k \<notin> fst ` set kvs \<Longrightarrow> mset (obj_put kvs k v) = add_mset (k, v) (mset kvs)"
proof -
  have "mset (takeWhile P kvs) + mset (dropWhile P kvs) = mset kvs" for P
    by (simp flip: mset_append)
  then show "k \<notin> fst ` set kvs \<Longrightarrow> ?thesis"
    by (simp add: obj_put_def split: option.split)
qed

lemma mset_obj_puts: "distinct (map fst (acc @ kvs)) \<Longrightarrow> mset (obj_puts acc kvs) = mset acc + mset kvs"
proof (induction acc kvs rule: obj_puts.induct)
  case (2 acc k v kvs)
  have new: "k \<notin> fst ` set acc" using 2(2) by auto
  have "mset (map fst (obj_put acc k v @ kvs)) = mset (map fst (acc @ (k, v) # kvs))"
    by (simp add: mset_obj_put [OF new])
  from mset_eq_imp_distinct_iff [OF this] have "distinct (map fst (obj_put acc k v @ kvs))"
    using 2(2) by (simp only:)
  then show ?case using 2(1) by (simp add: mset_obj_put [OF new])
qed simp

lemma reordered_to_listed: "safe v \<Longrightarrow> reordered v (listed v)"
proof (induction v)
  case (JArr vs)
  then show ?case
    by (auto simp: list_all2_conv_all_nth list_all_iff intro!: reordered.elements)
next
  case (JObj kvs)
  have "reordered (snd kv) (listed (snd kv))" if "kv \<in> set kvs" for kv
    using JObj.IH [OF that] JObj.prems that by (simp add: list_all_iff snds.intros)
  moreover have "mset (obj_puts [] (map (\<lambda>kv. (fst kv, listed (snd kv))) kvs))
      = mset (map (\<lambda>kv. (fst kv, listed (snd kv))) kvs)"
    using JObj.prems by (subst mset_obj_puts) (simp_all add: comp_def)
  ultimately show ?case using JObj.prems by (simp add: reordered_members [where f = listed])
qed (simp_all add: reordered.refl)

text \<open>
  C18: the canonical text loses nothing but the order of members. For an envelope whose numbers are integers of
  at most 53 bits, whatever its keys, it is JSON that parses to the envelope up to the order of members, at
  any depth; and another such envelope has the same canonical text if and only if it is equal to the first
  up to that order.
\<close>

theorem canonical_decodes:
  assumes "safe v"
  shows "\<exists>s w. canonicalJson v = Inr s \<and> json_parse s = Inr w \<and> reordered v w
      \<and> (\<forall>u. safe u \<longrightarrow> (canonicalJson u = Inr s \<longleftrightarrow> reordered v u))"
proof -
  have text_of: "canonicalJson u = Inr (stringify (normal u))"
    "json_parse (stringify (normal u)) = Inr (listed (normal u))" "reordered u (listed (normal u))"
    if "safe u" for u
  proof -
    note parts = safe_parts [OF that] safe_parts [OF safe_normal [OF that]]
    show "canonicalJson u = Inr (stringify (normal u))" using parts by (simp add: canonicalJson_eq)
    show "json_parse (stringify (normal u)) = Inr (listed (normal u))"
      using parts by (simp add: reads_parse small_reads)
    show "reordered u (listed (normal u))"
      using reordered_to_normal [OF that] reordered_to_listed [OF safe_normal [OF that]] by (rule reordered.trans)
  qed
  have "canonicalJson u = canonicalJson v \<longleftrightarrow> reordered v u" if "safe u" for u
  proof
    assume "canonicalJson u = canonicalJson v"
    then have "listed (normal u) = listed (normal v)"
      using text_of(1,2) [OF that] text_of(1,2) [OF assms] by simp
    then show "reordered v u"
      using text_of(3) [OF that] text_of(3) [OF assms] by (metis reordered_sym reordered.trans)
  next
    assume "reordered v u"
    then show "canonicalJson u = canonicalJson v" using reordered_normal by (simp add: canonicalJson_eq)
  qed
  then show ?thesis using text_of [OF assms] by auto
qed

text \<open>Keys that are array indices: the text lists \<open>10\<close> before \<open>9\<close>, the parsed value \<open>9\<close> before \<open>10\<close>.\<close>

theorem canonical_decodes_witness:
  "\<exists>s w. canonicalJson (JObj [(js ''9'', JNull), (js ''10'', demo_envelope ''9'')]) = Inr s \<and> json_parse s = Inr w
      \<and> reordered (JObj [(js ''9'', JNull), (js ''10'', demo_envelope ''9'')]) w"
proof -
  have "safe (JObj [(js ''9'', JNull), (js ''10'', demo_envelope ''9'')])"
    by (simp add: demo_envelope_def demo_grant_def)
  then show ?thesis using canonical_decodes by blast
qed

section \<open>The actuator\<close>

text \<open>The line the actuator appends for an envelope.\<close>

definition log_line :: "jv \<Rightarrow> jstr" where
  "log_line env = stringify (JObj [(js ''host'', JStr (js ''node'')),
     (js ''capability_id'', or_null (prop_of env ''capability_id''))]) @ [10]"

definition append_line :: "jstr \<Rightarrow> authority_state \<Rightarrow> authority_state" where
  "append_line line st =
     st\<lparr>actuator_log := Some (case actuator_log st of None \<Rightarrow> line | Some s \<Rightarrow> s @ line)\<rparr>"

lemma gate_eq:
  "gate A path envelope (verdict C envelope) =
     (if verdict C envelope = admitted then bindC (actuate A path (or_null envelope)) (\<lambda>_. returnC 1) else returnC 0)"
  using verdict_codes [of C envelope] by (auto simp: gate_def admitted_def refused_def)

lemma actuate_eq:
  "actuate A path env st =
     (case aw_append A path of Some e \<Rightarrow> (st, Inl e) | None \<Rightarrow> (append_line (log_line env) st, Inr ()))"
  by (simp add: actuate_def append_line_def log_line_def Let_def split: option.split)

lemma log_write_out [simp]: "actuator_log (fst (write_out s st)) = actuator_log st"
  by (simp add: write_out_def)

text \<open>
  C6: the actuator runs exactly for an admitted envelope. After deciding one envelope the log has one line more,
  for the capability of that envelope, if and only if the verdict is ADMITTED and the file could be
  appended to; in every other case, refusals, unreadable envelopes and errors included, it is unchanged.
\<close>

theorem authority_actuates_admitted:
  "actuator_log (fst (authority_single A p path st)) =
     (case authority_read A p of
        Inl e \<Rightarrow> actuator_log st
      | Inr env \<Rightarrow>
          (if verdict (aw_clocks A 0) (Some env) = admitted \<and> aw_append A path = None
           then actuator_log (append_line (log_line env) st) else actuator_log st))"
proof (cases "authority_read A p")
  case (Inr env)
  show ?thesis
    using Inr by (cases "aw_append A path")
      (simp_all add: authority_single_def Let_def gate_eq actuate_eq or_null_def bindC_def split: sum.split)
qed (simp add: authority_single_def)

text \<open>
  C37: an admitted envelope with a number that is not an integer is acted on and not reported. The actuator has
  appended its line when the digest refuses the envelope: the process dies with nothing on standard output.
\<close>

theorem authority_acts_unreported:
  assumes "authority_read A p = Inr env" "entitled (aw_clocks A 0) env" "aw_append A path = None"
    and "\<not> integral env"
  shows "authority_single A p path st = (append_line (log_line env) st, Inl non_integer)"
  using assms canonicalJson_fails [OF assms(4)]
  by (simp add: authority_single_def Let_def gate_eq verdict_admitted_iff actuate_eq or_null_def digest_def bindC_def)

definition fraction_envelope :: jv where
  "fraction_envelope = JObj ((js ''budget'', JNum (NFrac 1 1))
     # (case demo_envelope ''123456'' of JObj kvs \<Rightarrow> kvs | _ \<Rightarrow> []))"

definition demo_authority :: "(jstr \<Rightarrow> exn + byte list) \<Rightarrow> authority_world" where
  "demo_authority files = \<lparr>aw_args = [], aw_read = files, aw_append = (\<lambda>p. None), aw_clocks = (\<lambda>i. demo_clock),
     aw_sha256 = (\<lambda>b. js ''00'')\<rparr>"

lemma norm_dyadic_shift: "norm_dyadic (2 ^ j * m) (j + k) = norm_dyadic m k"
  by (induction j) simp_all

lemma half_double: "decimal_double False 5 (-1) = NFrac 1 1"
proof -
  have b: "bitlen 5 = 3" "bitlen 10 = 4" by (simp_all add: bitlen.simps)
  have "last_place 5 10 = -53" using b by (simp add: last_place_def scaled_def)
  moreover have "norm_dyadic 4503599627370496 53 = NFrac 1 1"
    using norm_dyadic_shift [of 52 1 1] by (simp add: numeral_eq_Suc)
  ultimately show ?thesis
    by (simp add: decimal_double_def ratio10_def to_double_def double_of_ratio_def scaled_def round_half_even_def)
qed

lemma half_text: "stringify (JNum (NFrac 1 1)) = js ''0.5''"
proof -
  have "dec_exponent 1 2 = 0" by (simp add: dec_exponent_def dec_digits.simps)
  moreover have "candidate (NFrac 1 1) 1 2 0 1 = Some 5"
    using half_double by (simp add: candidate_def)
  ultimately have "positive_text (NFrac 1 1) 1 2 = js ''0.5''"
    by (simp add: positive_text_def eval_nat_numeral layout_def nat_text_def dec_digits.simps js_def)
  then show ?thesis by (simp add: stringify.simps json_num_def)
qed

lemma half_trip: "value_trip (JNum (NFrac 1 1))"
proof (rule readsI)
  fix n r assume r: "delimited r"
  have "split_digits (53 # r) = ([5], r)"
    using not_digit_head [OF r] by (cases r) (auto simp: split_digits_def digits_of_def is_digit_def)
  then have "parse_number (48 # 46 # 53 # r) = Some (NFrac 1 1, r)"
    using half_double parse_exponent_delimited [OF r]
    by (simp add: parse_number_def parse_int_part_def parse_fraction_def digits_value_def)
  then show "parse_value (Suc n) (stringify (JNum (NFrac 1 1)) @ r) = Some (JNum (NFrac 1 1), r)"
    unfolding half_text by (simp add: js_def parse_value.simps skip_ws_def is_ws_def parse_scalar_def is_digit_def)
qed

lemma fraction_trip: "value_trip fraction_envelope"
proof -
  have "value_trip (demo_grant ''123456'')"
  proof (rule plain_trip)
    have "own_order [js ''subject'', js ''capability_id'', js ''expires_at'']"
      by (rule own_order_words) (simp_all add: is_digit_def)
    then show "plain (demo_grant ''123456'')" by (simp add: demo_grant_def)
  qed
  moreover have "own_order [js ''budget'', js ''envelope_version'', js ''principal'', js ''capability_id'',
      js ''consequence'', js ''evaluated_at'', js ''authority'']"
    by (rule own_order_words) (simp_all add: is_digit_def)
  ultimately show ?thesis
    unfolding fraction_envelope_def demo_envelope_def jv.case
    by (intro object_trip) (simp_all add: half_trip [unfolded One_nat_def] scalar_trip)
qed

theorem authority_acts_unreported_witness:
  "authority_single (demo_authority (\<lambda>p. Inr (utf8_encode (stringify fraction_envelope)))) [] (js ''log'')
       \<lparr>actuator_log = None, printed = []\<rparr>
   = (\<lparr>actuator_log = Some (log_line fraction_envelope), printed = []\<rparr>, Inl non_integer)"
proof -
  let ?A = "demo_authority (\<lambda>p. Inr (utf8_encode (stringify fraction_envelope)))"
  have "parse_value (2 * length (stringify fraction_envelope) + 2) (stringify fraction_envelope @ [])
      = Some (fraction_envelope, [])"
    by (rule readsD [OF fraction_trip]) simp_all
  then have "json_parse (stringify fraction_envelope) = Inr fraction_envelope"
    by (simp add: json_parse_def)
  then have "authority_read ?A [] = Inr fraction_envelope"
    by (simp add: authority_read_def demo_authority_def utf8_roundtrip stringify_well_formed)
  moreover have "entitled (aw_clocks ?A 0) fraction_envelope"
    by (auto simp: entitled_def grants_def in_force_def named_def says_def prop_of_def get_prop_def demo_authority_def
        demo_clock_def fraction_envelope_def demo_envelope_def demo_grant_def present_def js_Cons is_space_def)
  ultimately show ?thesis
    using authority_acts_unreported [of ?A "[]" fraction_envelope "js ''log''" "\<lparr>actuator_log = None, printed = []\<rparr>"]
    by (simp add: append_line_def) (simp add: demo_authority_def fraction_envelope_def)
qed

section \<open>Conformance mode\<close>

text \<open>The decision on a numbered test case, and the line printed for it.\<close>

definition spec_decision :: "authority_world \<Rightarrow> nat \<times> jv \<Rightarrow> decision" where
  "spec_decision A ic = verdict (aw_clocks A (fst ic)) (prop_of (snd ic) ''envelope'')"

definition spec_line :: "authority_world \<Rightarrow> nat \<times> jv \<Rightarrow> jstr" where
  "spec_line A ic =
     stringify (JObj (obj_defined
       ([(js ''host'', Some (JStr (js ''node''))), (js ''name'', prop_of (snd ic) ''name'')]
        @ map (\<lambda>(k, v). (k, Some v)) (decision_fields (spec_decision A ic)
            @ [calls_field (if spec_decision A ic = admitted then 1 else 0)])))) @ [10]"

text \<open>What the actuator appends over the cases: one line per admitted case, in order.\<close>

definition spec_actions :: "authority_world \<Rightarrow> (nat \<times> jv) list \<Rightarrow> jstr list" where
  "spec_actions A cs =
     map (\<lambda>ic. log_line (or_null (prop_of (snd ic) ''envelope''))) (filter (\<lambda>ic. spec_decision A ic = admitted) cs)"

definition append_lines :: "jstr list \<Rightarrow> authority_state \<Rightarrow> authority_state" where
  "append_lines ls st = fold append_line ls st"

lemma append_line_printed: "append_line l (st\<lparr>printed := p\<rparr>) = (append_line l st)\<lparr>printed := p\<rparr>"
  by (simp add: append_line_def)

lemma append_lines_printed: "append_lines ls (st\<lparr>printed := p\<rparr>) = (append_lines ls st)\<lparr>printed := p\<rparr>"
  by (induction ls arbitrary: st) (simp_all add: append_lines_def append_line_printed)

lemma printed_append_lines [simp]: "printed (append_lines ls st) = printed st"
  by (induction ls arbitrary: st) (simp_all add: append_lines_def append_line_def)

lemma spec_case_step:
  assumes "c \<noteq> JNull" "aw_append A path = None"
  shows "spec_case A path i c st =
     ((append_lines (spec_actions A [(i, c)]) st)\<lparr>printed := printed st @ spec_line A (i, c)\<rparr>, Inr ())"
proof -
  have g: "get_prop c k = Inr (case get_prop c k of Inl e \<Rightarrow> None | Inr w \<Rightarrow> w)" for k
    using assms(1) by (cases c) (simp_all add: get_prop_def)
  have p: "get_prop c (js ''envelope'') = Inr (prop_of c ''envelope'')" "get_prop c (js ''name'') = Inr (prop_of c ''name'')"
    unfolding prop_of_def by (rule g)+
  show ?thesis
    by (simp add: spec_case_def p Let_def gate_eq actuate_eq assms(2) bindC_def write_out_def spec_line_def
        spec_decision_def spec_actions_def append_lines_def append_line_def)
qed

text \<open>
  C7: in conformance mode the report and the actions agree. Over test cases of which none is null, with a log that
  can be appended to, the process prints one line per case, in order, with its decision and the number of
  actuator calls, and the log gains one line for every case that was admitted and for no other.
\<close>

theorem authority_spec_reports:
  assumes "list_all (\<lambda>c. c \<noteq> JNull) cs" "aw_append A path = None"
  shows "spec_cases A path i cs st =
     ((append_lines (spec_actions A (enumerate i cs)) st)
        \<lparr>printed := printed st @ concat (map (spec_line A) (enumerate i cs))\<rparr>, Inr ())"
  using assms(1)
proof (induction cs arbitrary: i st)
  case Nil
  then show ?case by (simp add: append_lines_def spec_actions_def)
next
  case (Cons c cs)
  have split: "append_lines (spec_actions A ((i, c) # ics)) st
      = append_lines (spec_actions A ics) (append_lines (spec_actions A [(i, c)]) st)" for ics
    by (simp add: append_lines_def spec_actions_def)
  let ?st = "(append_lines (spec_actions A [(i, c)]) st)\<lparr>printed := printed st @ spec_line A (i, c)\<rparr>"
  have "spec_case A path i c st = (?st, Inr ())"
    by (rule spec_case_step) (use Cons.prems assms(2) in simp_all)
  then have "spec_cases A path i (c # cs) st = spec_cases A path (Suc i) cs ?st" by simp
  also have "\<dots> = ((append_lines (spec_actions A (enumerate (Suc i) cs)) ?st)
      \<lparr>printed := printed ?st @ concat (map (spec_line A) (enumerate (Suc i) cs))\<rparr>, Inr ())"
    using Cons.prems by (intro Cons.IH) simp
  finally show ?case
    by (simp add: append_lines_printed split [of "enumerate (Suc i) cs"])
qed

theorem authority_spec_reports_witness:
  "spec_cases (demo_authority (\<lambda>p. Inr [])) (js ''log'') 0
       [JObj [(js ''envelope'', demo_envelope ''123456'')], JObj []] \<lparr>actuator_log = None, printed = []\<rparr>
     = (\<lparr>actuator_log = Some (log_line (demo_envelope ''123456'')),
         printed = spec_line (demo_authority (\<lambda>p. Inr [])) (0, JObj [(js ''envelope'', demo_envelope ''123456'')])
           @ spec_line (demo_authority (\<lambda>p. Inr [])) (1, JObj [])\<rparr>, Inr ())"
proof -
  let ?A = "demo_authority (\<lambda>p. Inr [])"
  let ?c = "JObj [(js ''envelope'', demo_envelope ''123456'')]"
  have "entitled demo_clock (demo_envelope ''123456'')"
    by (auto simp: entitled_def grants_def in_force_def named_def says_def prop_of_def get_prop_def
        demo_clock_def demo_envelope_def demo_grant_def present_def js_Cons is_space_def)
  then have "spec_decision ?A (0, ?c) = admitted"
    by (simp add: spec_decision_def prop_of_def get_prop_def demo_authority_def verdict_admitted_iff)
  moreover have "spec_decision ?A (Suc 0, JObj []) \<noteq> admitted"
    by (simp add: spec_decision_def prop_of_def get_prop_def verdict_def)
  ultimately have "spec_actions ?A (enumerate 0 [?c, JObj []]) = [log_line (demo_envelope ''123456'')]"
    by (simp add: spec_actions_def prop_of_def get_prop_def or_null_def)
  then show ?thesis
    using authority_spec_reports [of "[?c, JObj []]" ?A "js ''log''" 0 "\<lparr>actuator_log = None, printed = []\<rparr>"]
    by (simp add: append_lines_def append_line_def) (simp add: demo_authority_def)
qed

end
