(* ===== verification/Json_Order.thy ===== *)
theory Json_Order
  imports Host_World
begin

text \<open>
  The order of an object's own properties as an invariant: array indices ascending, then the other keys,
  no key twice. Every write keeps it, and every value \<open>JSON.parse\<close> returns has it at every depth.
\<close>

section \<open>Array indices\<close>

lemma digits_value_text: "digits_value (d # ds) = d * 10 ^ length ds + digits_value ds"
proof -
  have "foldl (\<lambda>a d. 10 * a + d) a ds = a * 10 ^ length ds + foldl (\<lambda>a d. 10 * a + d) 0 ds" for a
  proof (induction ds arbitrary: a)
    case (Cons x xs)
    show ?case using Cons [of "10 * a + x"] Cons [of x] by (simp add: algebra_simps)
  qed simp
  from this [of d] show ?thesis by (simp add: digits_value_def)
qed

lemma digits_value_less: "list_all (\<lambda>d. d < 10) ds \<Longrightarrow> digits_value ds < 10 ^ length ds"
proof (induction ds rule: rev_induct)
  case Nil
  then show ?case by (simp add: digits_value_def)
next
  case (snoc d ds)
  then show ?case by simp
qed

lemma digits_value_inj:
  assumes "digits_value ds = digits_value es" "length ds = length es"
    and "list_all (\<lambda>d. d < 10) ds" "list_all (\<lambda>d. d < 10) es"
  shows "ds = es"
  using assms
proof (induction ds arbitrary: es rule: rev_induct)
  case (snoc d ds)
  then obtain e fs where es: "es = fs @ [e]" by (cases es rule: rev_cases) auto
  then have lt: "d < 10" "e < 10" and v: "10 * digits_value ds + d = 10 * digits_value fs + e"
    using snoc.prems by auto
  then have "d = e" "digits_value ds = digits_value fs" by presburger+
  then show ?case using snoc es by simp
qed simp

text \<open>Canonical numerals of different lengths differ: no leading zero.\<close>

lemma digits_value_ge: "ds \<noteq> [] \<Longrightarrow> hd ds \<noteq> 0 \<Longrightarrow> 10 ^ (length ds - 1) \<le> digits_value ds"
proof (cases ds)
  case (Cons d es)
  assume "hd ds \<noteq> 0"
  then have "1 * 10 ^ length es \<le> d * 10 ^ length es" using Cons by (intro mult_le_mono1) simp
  then have "10 ^ length es \<le> d * 10 ^ length es + digits_value es" by linarith
  then show ?thesis using Cons by (simp add: digits_value_text)
qed simp

lemma canonical_inj:
  assumes "digits_value ds = digits_value es" "ds \<noteq> []" "es \<noteq> []"
    and "list_all (\<lambda>d. d < 10) ds" "list_all (\<lambda>d. d < 10) es"
    and "hd ds \<noteq> 0 \<or> length ds = 1" "hd es \<noteq> 0 \<or> length es = 1"
  shows "ds = es"
proof -
  have le: "length fs \<le> length gs" if "digits_value fs = digits_value gs" "fs \<noteq> []" "gs \<noteq> []"
    "list_all (\<lambda>d. d < 10) gs" "hd fs \<noteq> 0 \<or> length fs = 1" for fs gs
  proof (cases "length fs = 1")
    case False
    then have "10 ^ (length fs - 1) \<le> digits_value fs" using that by (intro digits_value_ge) auto
    also have "\<dots> < 10 ^ length gs" using that(1,4) digits_value_less [of gs] by simp
    finally have "length fs - 1 < length gs" by (rule power_less_imp_less_exp [rotated]) simp
    then show ?thesis by simp
  qed (use that in \<open>cases gs; simp\<close>)
  show ?thesis
    by (rule digits_value_inj [OF assms(1)]) (use assms le [of ds es] le [of es ds] in auto)
qed

lemma digits_of_inject:
  "list_all is_digit s \<Longrightarrow> list_all is_digit t \<Longrightarrow> digits_of s = digits_of t \<Longrightarrow> s = t"
proof (induction s arbitrary: t)
  case Nil
  then show ?case by (simp add: digits_of_def)
next
  case (Cons c s)
  then obtain d u where t: "t = d # u" by (cases t) (auto simp: digits_of_def)
  have "unat c = unat d" using Cons.prems t by (auto simp: digits_of_def is_digit_def)
  then have "c = d" by (rule unsigned_word_eqI)
  then show ?case using Cons.prems Cons.IH [of u] t by (simp add: digits_of_def)
qed

lemma index_key_digits:
  assumes "index_key k = Some i"
  shows "list_all is_digit k" "digits_of k \<noteq> []" "digits_value (digits_of k) = i"
    "list_all (\<lambda>d. d < 10) (digits_of k)" "hd (digits_of k) \<noteq> 0 \<or> length (digits_of k) = 1"
proof -
  have k: "k \<noteq> []" "list_all is_digit k" "hd k \<noteq> 48 \<or> length k = 1" "digits_value (digits_of k) = i"
    using assms by (auto simp: index_key_def split: if_splits)
  then show "list_all is_digit k" "digits_of k \<noteq> []" "digits_value (digits_of k) = i"
    by (simp_all add: digits_of_def)
  show "list_all (\<lambda>d. d < 10) (digits_of k)"
    using k(2) by (auto simp: digits_of_def list_all_iff is_digit_def)
  obtain c s where cs: "k = c # s" using k(1) by (cases k) simp_all
  have "unat c - 48 \<noteq> 0" if "c \<noteq> 48"
  proof -
    have "unat c \<noteq> unat (48 :: cu)" using that unsigned_word_eqI by blast
    then show ?thesis using k(2) cs by (simp add: is_digit_def)
  qed
  then show "hd (digits_of k) \<noteq> 0 \<or> length (digits_of k) = 1"
    using k(3) cs by (auto simp: digits_of_def)
qed

lemma index_key_inject:
  assumes "index_key k = Some i" "index_key l = Some i"
  shows "k = l"
proof (rule digits_of_inject)
  show "digits_of k = digits_of l"
    by (rule canonical_inj) (use index_key_digits [OF assms(1)] index_key_digits [OF assms(2)] in auto)
qed (use index_key_digits(1) assms in blast)+

section \<open>The order of keys\<close>

lemma key_before_trans: "key_before a b \<Longrightarrow> key_before b c \<Longrightarrow> a \<noteq> c \<Longrightarrow> key_before a c"
  by (auto simp: key_before_def split: option.splits)

lemma key_before_linear: "index_key k = Some i \<Longrightarrow> l \<noteq> k \<Longrightarrow> \<not> key_before l k \<Longrightarrow> key_before k l"
  using index_key_inject [of k i l]
  by (cases "index_key l") (auto simp: key_before_def linorder_not_less le_less)

lemma own_order_distinct: "own_order ks \<Longrightarrow> distinct ks"
  unfolding own_order_def
  by (induction ks) (auto simp: key_before_irrefl)

lemma own_order_append:
  "own_order (ks @ ls) \<longleftrightarrow> own_order ks \<and> own_order ls \<and> (\<forall>k \<in> set ks. \<forall>l \<in> set ls. key_before k l)"
  by (auto simp: own_order_def sorted_wrt_append)

lemma own_order_insert:
  assumes "own_order ks" "index_key k = Some i" "k \<notin> set ks"
  shows "own_order (takeWhile (\<lambda>l. key_before l k) ks @ k # dropWhile (\<lambda>l. key_before l k) ks)"
proof -
  let ?P = "\<lambda>l. key_before l k"
  have split: "own_order (takeWhile ?P ks @ dropWhile ?P ks)" using assms(1) by simp
  have after: "key_before k l" if l: "l \<in> set (dropWhile ?P ks)" for l
  proof (cases "dropWhile ?P ks")
    case (Cons h t)
    then have h: "\<not> key_before h k" using hd_dropWhile [of ?P ks] by simp
    have "h \<in> set ks" using Cons by (metis list.set_intros(1) set_dropWhileD)
    then have kh: "key_before k h" using key_before_linear [OF assms(2) _ h] assms(3) by blast
    show ?thesis
    proof (cases "l = h")
      case False
      then have "key_before h l" using l Cons split unfolding own_order_append by (simp add: own_order_def)
      moreover have "k \<noteq> l" using l assms(3) by (metis set_dropWhileD)
      ultimately show ?thesis using kh key_before_trans by blast
    qed (use kh in simp)
  next
    case Nil
    show ?thesis using l unfolding Nil by simp
  qed
  have before: "key_before l k" if "l \<in> set (takeWhile ?P ks)" for l
    using that by (metis set_takeWhileD)
  note s = split [unfolded own_order_append]
  have "own_order (k # dropWhile ?P ks)"
    unfolding own_order_def sorted_wrt.simps using after s by (metis own_order_def)
  then show ?thesis
    unfolding own_order_append using before s by (metis set_ConsD)
qed

section \<open>Writes keep the order\<close>

lemma map_fst_takeWhile: "map fst (takeWhile (\<lambda>(l, w). P l) kvs) = takeWhile P (map fst kvs)"
  "map fst (dropWhile (\<lambda>(l, w). P l) kvs) = dropWhile P (map fst kvs)"
  by (induction kvs) auto

theorem obj_put_own_order:
  assumes "own_order (map fst kvs)"
  shows "own_order (map fst (obj_put kvs k v))"
proof (cases "k \<in> fst ` set kvs")
  case True
  then show ?thesis using assms by (simp add: obj_put_def comp_def case_prod_unfold)
next
  case new: False
  show ?thesis
  proof (cases "index_key k")
    case None
    have "key_before l k" if "l \<in> set (map fst kvs)" for l
      using that new None by (auto simp: key_before_def split: option.split)
    then show ?thesis
      using assms new None by (simp add: obj_put_def own_order_append) (simp add: own_order_def)
  next
    case (Some i)
    then show ?thesis
      using own_order_insert [OF assms Some] new
      by (simp add: obj_put_def map_fst_takeWhile)
  qed
qed

lemma obj_puts_ordered: "own_order (map fst acc) \<Longrightarrow> own_order (map fst (obj_puts acc kvs))"
  by (induction acc kvs rule: obj_puts.induct) (simp_all add: obj_put_own_order)

lemma set_obj_put: "set (obj_put kvs k v) \<subseteq> insert (k, v) (set kvs)"
  by (auto simp: obj_put_def dest: set_takeWhileD set_dropWhileD split: option.splits if_splits)

lemma set_obj_puts: "set (obj_puts acc kvs) \<subseteq> set acc \<union> set kvs"
proof (induction acc kvs rule: obj_puts.induct)
  case (2 acc k v kvs)
  then show ?case using set_obj_put [of acc k v] by auto
qed simp

section \<open>What JSON.parse returns\<close>

fun ordered :: "jv \<Rightarrow> bool" where
  "ordered (JArr vs) = list_all ordered vs"
| "ordered (JObj kvs) = (own_order (map fst kvs) \<and> list_all (\<lambda>kv. ordered (snd kv)) kvs)"
| "ordered _ = True"

lemma parse_scalar_ordered: "parse_scalar c r = Some (v, t) \<Longrightarrow> ordered v"
  by (auto simp: parse_scalar_def parse_literal_def split: if_splits option.splits)

lemma parse_ordered:
  "(\<forall>v r. parse_value n s = Some (v, r) \<longrightarrow> ordered v)
   \<and> (\<forall>vs r. parse_elems n s = Some (vs, r) \<longrightarrow> list_all ordered vs)
   \<and> (\<forall>kvs r. parse_members n s = Some (kvs, r) \<longrightarrow> list_all (\<lambda>kv. ordered (snd kv)) kvs)"
proof (induction n arbitrary: s)
  case 0
  then show ?case by (simp add: parse_value.simps parse_elems.simps parse_members.simps)
next
  case (Suc n)
  have V: "parse_value n t = Some (v, r) \<Longrightarrow> ordered v" for t v r using Suc by blast
  have E: "parse_elems n t = Some (vs, r) \<Longrightarrow> list_all ordered vs" for t vs r using Suc by blast
  have M: "parse_members n t = Some (kvs, r) \<Longrightarrow> list_all (\<lambda>kv. ordered (snd kv)) kvs" for t kvs r
    using Suc by blast
  have obj: "ordered (JObj (obj_puts [] kvs))" if "list_all (\<lambda>kv. ordered (snd kv)) kvs" for kvs
    using that set_obj_puts [of "[]" kvs] obj_puts_ordered [of "[]" kvs]
    by (auto simp: list_all_iff own_order_def)
  have "ordered v" if "parse_value (Suc n) s = Some (v, r)" for v r
    using that obj [of "[]"]
    by (auto simp: parse_value.simps simp del: ordered.simps(2)
        split: list.splits if_splits dest: parse_scalar_ordered E intro: obj M)
  moreover have "list_all ordered vs" if "parse_elems (Suc n) s = Some (vs, r)" for vs r
    using that
    by (auto simp: parse_elems.simps split: list.splits if_splits option.splits) (blast intro: V E)+
  moreover have "list_all (\<lambda>kv. ordered (snd kv)) kvs" if "parse_members (Suc n) s = Some (kvs, r)" for kvs r
    using that
    by (auto simp: parse_members.simps split: list.splits if_splits option.splits) (blast intro: V M)+
  ultimately show ?case by blast
qed

theorem json_parse_ordered: "json_parse s = Inr v \<Longrightarrow> ordered v"
  using conjunct1 [OF parse_ordered [of "2 * length s + 2" s]]
  by (auto simp: json_parse_def split: option.splits if_splits)

end
