(* ===== verification/Host_Verify.thy ===== *)
theory Host_Verify
  imports Demo_World
begin

text \<open>
  \<open>priv/sa2a_graphlaw/verify.mjs\<close>: the measurements of the conformance corpus. For every vector of the
  corpus manifest the engine validates the vector's law graph against three sets of shapes, runs the
  hooks on it and hashes it; all of it is printed as one JSON object. \<open>path.join\<close> is the POSIX one;
  SHA-256 is a parameter.
\<close>

section \<open>Paths\<close>

fun split_path :: "jstr \<Rightarrow> jstr list" where
  "split_path [] = [[]]"
| "split_path (c # s) =
     (if c = 47 then [] # split_path s
      else case split_path s of [] \<Rightarrow> [[c]] | seg # segs \<Rightarrow> (c # seg) # segs)"

text \<open>\<open>normalizeString\<close>: \<open>kept\<close> holds the segments kept so far, the last one first.\<close>

fun resolve_segments :: "bool \<Rightarrow> jstr list \<Rightarrow> jstr list \<Rightarrow> jstr list" where
  "resolve_segments up kept [] = rev kept"
| "resolve_segments up kept (seg # segs) =
     (if seg = [] \<or> seg = js ''.'' then resolve_segments up kept segs
      else if seg = js ''..'' then
        (if kept \<noteq> [] \<and> hd kept \<noteq> js ''..'' then resolve_segments up (tl kept) segs
         else resolve_segments up (if up then seg # kept else kept) segs)
      else resolve_segments up (seg # kept) segs)"

definition normalize_path :: "jstr \<Rightarrow> jstr" where
  "normalize_path p =
     (if p = [] then js ''.''
      else let rooted = hd p = 47; trailing = last p = 47;
               body = join [47] (resolve_segments (\<not> rooted) [] (split_path p)) in
        if body = [] then (if rooted then js ''/'' else if trailing then js ''./'' else js ''.'')
        else (if rooted then [47] else []) @ body @ (if trailing then [47] else []))"

definition path_join :: "jstr \<Rightarrow> jstr \<Rightarrow> jstr" where
  "path_join a b =
     (if a = [] then (if b = [] then js ''.'' else normalize_path b)
      else normalize_path (if b = [] then a else a @ [47] @ b))"

text \<open>\<open>s.endsWith(t)\<close>\<close>

definition ends_with :: "jstr \<Rightarrow> jstr \<Rightarrow> bool" where
  "ends_with s t \<longleftrightarrow> length t \<le> length s \<and> drop (length s - length t) s = t"

section \<open>The engine\<close>

definition verify_imports :: import_obj where
  "verify_imports = two_imports fill_deterministic"

definition verify_putStr :: "'s exports_obj \<Rightarrow> jstr \<Rightarrow> ('s inst, i32 \<times> i32) comp" where
  "verify_putStr E s = (let b = utf8_encode s in put_bytes E (length b) b)"

definition verify_call :: "'s exports_obj \<Rightarrow> jstr \<Rightarrow> jstr list \<Rightarrow> ('s inst, jstr) comp" where
  "verify_call E fn strs = string_call E (verify_putStr E) fn strs"

section \<open>The corpus\<close>

text \<open>\<open>read(rel)\<close>; \<open>path.join\<close> accepts strings only.\<close>

definition verify_read :: "'s world \<Rightarrow> jstr \<Rightarrow> jstr \<Rightarrow> exn + jstr" where
  "verify_read W corpus rel = read_text W (path_join corpus rel)"

definition verify_read_value :: "'s world \<Rightarrow> jstr \<Rightarrow> jv option \<Rightarrow> exn + jstr" where
  "verify_read_value W corpus rel =
     (case rel of Some (JStr s) \<Rightarrow> verify_read W corpus s | _ \<Rightarrow> Inl (Fault (Bad_argument (js ''path''))))"

definition verify_json :: "'s world \<Rightarrow> jstr \<Rightarrow> jstr \<Rightarrow> exn + jv" where
  "verify_json W corpus rel =
     (case verify_read W corpus rel of Inl e \<Rightarrow> Inl e | Inr s \<Rightarrow> json_parse s)"

record corpus =
  co_profile :: jstr
  co_shapes_full :: jstr
  co_shapes_violations :: jstr
  co_shapes_warnings :: jstr
  co_shex :: jstr
  co_shape_map :: jstr
  co_rules :: jstr
  co_hooks :: jstr
  co_event :: jstr

text \<open>The nine constant files, in the order they are read.\<close>

definition corpus_files :: "jstr list" where
  "corpus_files = map js
     [''profile.ttl'', ''shapes.shacl.ttl'', ''shapes.violations.shacl.ttl'', ''shapes.warnings.shacl.ttl'',
      ''schema.shex'', ''shape_map.json'', ''rules/denials.n3'', ''hooks/admitted_hooks.ttl'', ''event.ttl'']"

fun read_all :: "(jstr \<Rightarrow> exn + jstr) \<Rightarrow> jstr list \<Rightarrow> exn + jstr list" where
  "read_all read [] = Inr []"
| "read_all read (f # fs) =
     (case read f of
        Inl e \<Rightarrow> Inl e
      | Inr s \<Rightarrow> (case read_all read fs of Inl e \<Rightarrow> Inl e | Inr ss \<Rightarrow> Inr (s # ss)))"

definition verify_load :: "'s world \<Rightarrow> jstr \<Rightarrow> exn + corpus" where
  "verify_load W corpus =
     map_sum id
       (\<lambda>ts. \<lparr>co_profile = ts ! 0, co_shapes_full = ts ! 1, co_shapes_violations = ts ! 2,
              co_shapes_warnings = ts ! 3, co_shex = ts ! 4, co_shape_map = ts ! 5, co_rules = ts ! 6,
              co_hooks = ts ! 7, co_event = ts ! 8\<rparr>)
       (read_all (verify_read W corpus) corpus_files)"

definition lawGraph :: "corpus \<Rightarrow> jstr \<Rightarrow> jstr" where
  "lawGraph c subject = join [10] [subject, co_rules c, co_hooks c]"

section \<open>Validation\<close>

text \<open>What \<open>validate\<close> returns; a member that is None is undefined.\<close>

record validation =
  va_error :: "jv option"
  va_dialects :: "jv option"
  va_shacl :: "jv option"
  va_replay :: "jv option"

text \<open>\<open>o.dialects.find\<close> and \<open>o.dialects.map\<close>: only an array has them.\<close>

definition dialect_list :: "jv option \<Rightarrow> exn + jv list" where
  "dialect_list ds =
     (case ds of
        None \<Rightarrow> Inl (Fault (Undefined_base (js ''find'')))
      | Some JNull \<Rightarrow> Inl (Fault (Undefined_base (js ''find'')))
      | Some (JArr vs) \<Rightarrow> Inr vs
      | Some _ \<Rightarrow> Inl (Fault (Not_a_function (js ''o.dialects.find''))))"

fun find_shacl :: "jv list \<Rightarrow> exn + jv option" where
  "find_shacl [] = Inr None"
| "find_shacl (d # ds) =
     (case get_prop d (js ''dialect'') of
        Inl e \<Rightarrow> Inl e
      | Inr v \<Rightarrow> if v = Some (str ''SHACL'') then Inr (Some d) else find_shacl ds)"

text \<open>\<open>o.dialects.map((d) => [d.dialect, d.status])\<close>\<close>

fun dialect_pairs :: "jv list \<Rightarrow> exn + (jv option \<times> jv option) list" where
  "dialect_pairs [] = Inr []"
| "dialect_pairs (d # ds) =
     (case (get_prop d (js ''dialect''), get_prop d (js ''status'')) of
        (Inr k, Inr v) \<Rightarrow> map_sum id (Cons (k, v)) (dialect_pairs ds)
      | (Inl e, _) \<Rightarrow> Inl e
      | (_, Inl e) \<Rightarrow> Inl e)"

text \<open>\<open>Object.fromEntries\<close>; a property can have the value undefined.\<close>

fun from_entries ::
  "(jstr \<times> jv option) list \<Rightarrow> (jv option \<times> jv option) list \<Rightarrow> exn + (jstr \<times> jv option) list" where
  "from_entries acc [] = Inr acc"
| "from_entries acc ((k, v) # kvs) =
     (case to_string_opt k of Inl e \<Rightarrow> Inl e | Inr s \<Rightarrow> from_entries (obj_put acc s v) kvs)"

text \<open>\<open>{ status: shacl.status, results: shacl.triples_out }\<close>\<close>

definition shacl_summary :: "jv option \<Rightarrow> exn + jv" where
  "shacl_summary shacl =
     (case shacl of
        None \<Rightarrow> Inl (Fault (Undefined_base (js ''status'')))
      | Some d \<Rightarrow>
          (case (get_prop d (js ''status''), get_prop d (js ''triples_out'')) of
             (Inr s, Inr t) \<Rightarrow> Inr (JObj (obj_defined [(js ''status'', s), (js ''results'', t)]))
           | (Inl e, _) \<Rightarrow> Inl e
           | (_, Inl e) \<Rightarrow> Inl e))"

definition verify_report :: "jv \<Rightarrow> exn + validation" where
  "verify_report v =
     bindE (get_prop v (js ''error'')) (\<lambda>err.
     if truthy_opt err
     then Inr \<lparr>va_error = err, va_dialects = None, va_shacl = None, va_replay = None\<rparr>
     else
       bindE (get_prop v (js ''dialects'')) (\<lambda>dialects.
       bindE (dialect_list dialects) (\<lambda>ds.
       bindE (find_shacl ds) (\<lambda>shacl.
       bindE (dialect_pairs ds) (\<lambda>pairs.
       bindE (from_entries [] pairs) (\<lambda>statuses.
       bindE (shacl_summary shacl) (\<lambda>summary.
       bindE (get_prop v (js ''replay'')) (\<lambda>replay.
       Inr \<lparr>va_error = None, va_dialects = Some (JObj (obj_defined statuses)),
            va_shacl = Some summary, va_replay = replay\<rparr>))))))))"

definition verify_validate ::
  "'s exports_obj \<Rightarrow> corpus \<Rightarrow> jstr \<Rightarrow> jstr \<Rightarrow> ('s inst, validation) comp" where
  "verify_validate E c subject shapes =
     bindC (verify_call E (js ''validate_all'')
              [lawGraph c subject, co_profile c, shapes, co_shex c, co_shape_map c]) (\<lambda>raw.
     bindC (liftC (json_parse raw)) (\<lambda>v. liftC (verify_report v)))"

section \<open>One vector\<close>

definition hooks_summary :: "jv \<Rightarrow> exn + jv" where
  "hooks_summary run =
     bindE (get_prop run (js ''error'')) (\<lambda>err.
     if truthy_opt err then Inr (JObj (obj_defined [(js ''error'', err)]))
     else
       bindE (get_prop run (js ''status'')) (\<lambda>status.
       bindE (get_prop run (js ''verdicts'')) (\<lambda>verdicts.
       bindE (length_prop verdicts) (\<lambda>nv.
       bindE (get_prop run (js ''receipts'')) (\<lambda>receipts.
       bindE (length_prop receipts) (\<lambda>nr.
       bindE (get_prop run (js ''schedule'')) (\<lambda>schedule.
       Inr (JObj (obj_defined
         [(js ''status'', status), (js ''verdicts'', nv), (js ''receipts'', nr),
          (js ''schedule'', schedule)])))))))))"

definition shacl_partition :: "validation \<Rightarrow> validation \<Rightarrow> validation \<Rightarrow> jv" where
  "shacl_partition full violations warnings =
     JObj (obj_defined [(js ''full'', va_shacl full), (js ''violations_only'', va_shacl violations),
                        (js ''warnings_only'', va_shacl warnings)])"

definition vector_object ::
  "jv option \<Rightarrow> jstr \<Rightarrow> jstr \<Rightarrow> validation \<Rightarrow> validation \<Rightarrow> validation \<Rightarrow> jv \<Rightarrow> jv" where
  "vector_object fileName graphHash lawHash full violations warnings hooks =
     JObj (obj_defined
       [(js ''file'', fileName), (js ''graph_hash'', Some (JStr graphHash)),
        (js ''law_graph_hash'', Some (JStr lawHash)), (js ''dialects'', va_dialects full),
        (js ''shacl_by_severity_partition'', Some (shacl_partition full violations warnings)),
        (js ''run_hooks'', Some hooks), (js ''replay'', va_replay full)])"

definition verify_vector ::
  "'s exports_obj \<Rightarrow> corpus \<Rightarrow> jv option \<Rightarrow> jstr \<Rightarrow> ('s inst, jv) comp" where
  "verify_vector E c fileName subject =
     bindC (verify_validate E c subject (co_shapes_full c)) (\<lambda>full.
     bindC (verify_call E (js ''run_hooks'') [lawGraph c subject, co_event c]) (\<lambda>raw.
     bindC (liftC (json_parse raw)) (\<lambda>hooksRun.
     bindC (verify_call E (js ''graph_hash'') [subject]) (\<lambda>graphHash.
     bindC (verify_call E (js ''graph_hash'') [lawGraph c subject]) (\<lambda>lawHash.
     bindC (verify_validate E c subject (co_shapes_violations c)) (\<lambda>violations.
     bindC (verify_validate E c subject (co_shapes_warnings c)) (\<lambda>warnings.
     bindC (liftC (hooks_summary hooksRun)) (\<lambda>hooks.
     returnC (vector_object fileName graphHash lawHash full violations warnings hooks)))))))))"

section \<open>All vectors\<close>

text \<open>\<open>Object.keys(v)\<close>; arrays and strings list their indices.\<close>

definition object_keys :: "jv option \<Rightarrow> exn + jstr list" where
  "object_keys v =
     (case v of
        None \<Rightarrow> Inl (Fault No_object)
      | Some JNull \<Rightarrow> Inl (Fault No_object)
      | Some (JObj kvs) \<Rightarrow> Inr (map fst kvs)
      | Some (JArr vs) \<Rightarrow> Inr (map nat_text [0..<length vs])
      | Some (JStr s) \<Rightarrow> Inr (map nat_text [0..<length s])
      | Some _ \<Rightarrow> Inr [])"

definition sidecars :: "jstr list \<Rightarrow> jstr list" where
  "sidecars keys = filter (\<lambda>f. ends_with f (js ''.expected.json'')) keys"

text \<open>\<open>vectors[k] = v\<close> on an ordinary object: \<open>__proto__\<close> sets the prototype, which is not printed.\<close>

definition vector_put :: "(jstr \<times> jv) list \<Rightarrow> jstr \<Rightarrow> jv \<Rightarrow> (jstr \<times> jv) list" where
  "vector_put vectors k v = (if k = js ''__proto__'' then vectors else obj_put vectors k v)"

definition verify_sidecar ::
  "'s world \<Rightarrow> jstr \<Rightarrow> 's exports_obj \<Rightarrow> corpus \<Rightarrow> jstr \<Rightarrow> ('s inst, jstr \<times> jv) comp" where
  "verify_sidecar W dir E c rel =
     bindC (liftC (verify_json W dir rel)) (\<lambda>sidecar.
     bindC (liftC (get_prop sidecar (js ''file''))) (\<lambda>fileName.
     bindC (liftC (verify_read_value W dir fileName)) (\<lambda>subject.
     bindC (verify_vector E c fileName subject) (\<lambda>v.
     bindC (liftC (get_prop sidecar (js ''vector''))) (\<lambda>name.
     bindC (liftC (to_string_opt name)) (\<lambda>k.
     returnC (k, v)))))))"

fun verify_sidecars ::
  "'s world \<Rightarrow> jstr \<Rightarrow> 's exports_obj \<Rightarrow> corpus \<Rightarrow> jstr list \<Rightarrow> (jstr \<times> jv) list
     \<Rightarrow> ('s inst, (jstr \<times> jv) list) comp" where
  "verify_sidecars W dir E c [] vectors = returnC vectors"
| "verify_sidecars W dir E c (rel # rels) vectors =
     bindC (verify_sidecar W dir E c rel) (\<lambda>(k, v).
     verify_sidecars W dir E c rels (vector_put vectors k v))"

definition verify_measure ::
  "'s world \<Rightarrow> jstr \<Rightarrow> 's exports_obj \<Rightarrow> corpus \<Rightarrow> jv \<Rightarrow> ('s inst, (jstr \<times> jv) list) comp" where
  "verify_measure W dir E c manifest =
     bindC (liftC (get_prop manifest (js ''files''))) (\<lambda>files.
     bindC (liftC (object_keys files)) (\<lambda>keys.
     verify_sidecars W dir E c (sidecars keys) []))"

section \<open>The process\<close>

text \<open>\<open>console.log\<close> of an error, then \<open>process.exit\<close>\<close>

definition verify_exit :: "nat \<Rightarrow> jstr \<Rightarrow> outcome" where
  "verify_exit code' message = Exit (stringify (JObj [(js ''error'', JStr message)]) @ [10]) code'"

definition verify_line :: "(byte list \<Rightarrow> jstr) \<Rightarrow> byte list \<Rightarrow> jstr \<Rightarrow> jstr \<Rightarrow> (jstr \<times> jv) list \<Rightarrow> jstr" where
  "verify_line sha256 wasmBytes version abc vectors =
     stringify (JObj
       [(js ''graphlaw_version'', JStr version), (js ''wasm_sha256'', JStr (sha256 wasmBytes)),
        (js ''wasm_bytes'', JNum (NInt (int (length wasmBytes)))), (js ''blake3_abc'', JStr abc),
        (js ''vectors'', JObj vectors)]) @ [10]"

definition verify_print ::
  "(byte list \<Rightarrow> jstr) \<Rightarrow> byte list \<Rightarrow> 's exports_obj \<Rightarrow> (jstr \<times> jv) list \<Rightarrow> ('s inst, jstr) comp" where
  "verify_print sha256 wasmBytes E vectors =
     bindC (verify_call E (js ''graphlaw_version'') []) (\<lambda>version.
     bindC (verify_call E (js ''blake3_hex'') [js ''abc'']) (\<lambda>abc.
     returnC (verify_line sha256 wasmBytes version abc vectors)))"

definition verify_run ::
  "(byte list \<Rightarrow> jstr) \<Rightarrow> 's world \<Rightarrow> jstr \<Rightarrow> byte list \<Rightarrow> 's exports_obj \<Rightarrow> 's inst \<Rightarrow> jv \<Rightarrow> corpus \<Rightarrow> outcome" where
  "verify_run sha256 W dir wasmBytes E st manifest c =
     (case verify_measure W dir E c manifest st of
        (t, Inl e) \<Rightarrow> verify_exit 5 (js ''measurement failed: '' @ message_of (engine_texts W) e)
      | (t, Inr vectors) \<Rightarrow>
          (case verify_print sha256 wasmBytes E vectors t of
             (u, Inl e) \<Rightarrow> Uncaught [] e
           | (u, Inr out) \<Rightarrow> Exit out 0))"

definition verify_corpus ::
  "(byte list \<Rightarrow> jstr) \<Rightarrow> 's world \<Rightarrow> jstr \<Rightarrow> byte list \<Rightarrow> 's exports_obj \<Rightarrow> 's inst \<Rightarrow> outcome" where
  "verify_corpus sha256 W dir wasmBytes E st =
     (if \<not> exists_file W (path_join dir (js ''MANIFEST.json''))
      then verify_exit 4 (js ''corpus MANIFEST.json not found under: '' @ dir)
      else case verify_json W dir (js ''MANIFEST.json'') of
        Inl e \<Rightarrow> verify_exit 4 (js ''unreadable MANIFEST.json: '' @ message_of (engine_texts W) e)
      | Inr manifest \<Rightarrow>
          (case verify_load W dir of
             Inl e \<Rightarrow> Uncaught [] e
           | Inr c \<Rightarrow> verify_run sha256 W dir wasmBytes E st manifest c))"

definition verify_main :: "(byte list \<Rightarrow> jstr) \<Rightarrow> 's world \<Rightarrow> outcome" where
  "verify_main sha256 W =
     (if blank (arg_at W 2) \<or> blank (arg_at W 3)
      then verify_exit 2 (js ''usage: verify.mjs <corpus-dir> <wasm-path>'')
      else let dir = the (arg_at W 2); wasmPath = the (arg_at W 3) in
      if \<not> exists_file W wasmPath
      then verify_exit 3 (js ''wasm not found: '' @ wasmPath)
      else case read_file W wasmPath of
        Inl e \<Rightarrow> Uncaught [] e
      | Inr wasmBytes \<Rightarrow>
          (case instantiate_bytes W wasmBytes verify_imports of
             Inl e \<Rightarrow> Uncaught [] e
           | Inr (E, st) \<Rightarrow> verify_corpus sha256 W dir wasmBytes E st))"

end
