(* ===== verification/Canned_Demo.thy ===== *)
theory Canned_Demo
  imports Demo_World
begin

text \<open>
  Modules for the witnesses that need several exports with arguments: an export answers with a fixed
  text, whatever it is called with. Memory and allocator are those of the demonstration module. Every
  such module meets the service contract.
\<close>

type_synonym canned = "(jstr \<times> nat \<times> jstr) list"

definition canned_fn :: "jstr \<Rightarrow> demo_fn" where
  "canned_fn a imp args st =
     (return_area (length (mem_of st)) (length (utf8_encode a)) (set_mem (mem_of st @ utf8_encode a) st), Inr 0)"

definition canned_exports :: "canned \<Rightarrow> (jstr \<times> unit export) list" where
  "canned_exports T =
     [(js ''memory'', Memory), (sp_name, Func demo_sp), (malloc_name, Func demo_malloc),
      (free_name, Func demo_free)] @ map (\<lambda>(k, n, a). (k, Func (canned_fn a))) T"

definition canned_E :: "canned \<Rightarrow> import_obj \<Rightarrow> unit exports_obj" where
  "canned_E T imp = \<lparr>ex_table = canned_exports T, ex_imports = imp\<rparr>"

definition canned_module :: "canned \<Rightarrow> unit wmodule" where
  "canned_module T = \<lparr>md_imports = [], md_exports = canned_exports T, md_start = (\<lambda>imp. Inr demo_state)\<rparr>"

definition canned_busy :: "unit inst \<Rightarrow> i32 \<Rightarrow> (i32 \<times> jstr) list \<Rightarrow> bool" where
  "canned_busy st rp bs \<longleftrightarrow> rp = 16 \<and> length bs \<le> 8
     \<and> 32 \<le> length (mem_of st) \<and> length (mem_of st) \<le> 32 + 1000 * length bs"

definition canned_service :: "canned \<Rightarrow> unit service" where
  "canned_service T =
     \<lparr>sv_table = (\<lambda>k. map_option (\<lambda>(n, a). (n, \<lambda>_. a)) (map_of T k)), sv_cap = 1000, sv_args = 8,
      sv_idle = (\<lambda>st. length (mem_of st) = 32), sv_busy = canned_busy,
      sv_done = (\<lambda>st r0 r1. 32 \<le> length (mem_of st))\<rparr>"

definition canned_ok :: "canned \<Rightarrow> bool" where
  "canned_ok T \<longleftrightarrow> list_all (\<lambda>(k, n, a). k \<notin> {js ''memory'', sp_name, malloc_name, free_name}
     \<and> length (utf8_encode a) \<le> 4000) T"

lemma canned_instantiate: "instantiate (canned_module T) imp = Inr (canned_E T imp, demo_ready)"
  by (simp add: instantiate_def canned_module_def canned_E_def demo_ready_def memory_binding_def canned_exports_def)

lemma canned_protocol [simp]:
  "ex_get (canned_E T imp) (js ''memory'') = Some Memory"
  "call_export (canned_E T imp) sp_name args st = demo_sp imp args st"
  "call_export (canned_E T imp) malloc_name args st = demo_malloc imp args st"
  "call_export (canned_E T imp) free_name args st = demo_free imp args st"
  by (simp_all add: ex_get_def call_export_def canned_E_def canned_exports_def)

lemma canned_get:
  assumes "canned_ok T" "map_of T k = Some (n, a)"
  shows "ex_get (canned_E T imp) k = Some (Func (canned_fn a))" "length (utf8_encode a) \<le> 4000"
proof -
  have "(k, n, a) \<in> set T" using assms(2) by (rule map_of_SomeD)
  then have k: "k \<notin> {js ''memory'', sp_name, malloc_name, free_name}" and "length (utf8_encode a) \<le> 4000"
    using assms(1) by (auto simp: canned_ok_def list_all_iff)
  then show "length (utf8_encode a) \<le> 4000" by simp
  have "map_of (map (\<lambda>(k, n, a). (k, Func (canned_fn a))) T) k = Some (Func (canned_fn a))"
    using assms(2) by (induction T) auto
  then show "ex_get (canned_E T imp) k = Some (Func (canned_fn a))"
    using k by (simp add: ex_get_def canned_E_def canned_exports_def)
qed

lemma canned_allocates: "allocates (canned_E T imp) (canned_service T)"
  unfolding allocates_def
proof (intro allI impI, elim conjE)
  fix st rp bs n
  assume "sv_busy (canned_service T) st rp bs" "length bs < sv_args (canned_service T)" "n \<le> sv_cap (canned_service T)"
  then have len: "32 \<le> length (mem_of st)" "length (mem_of st) \<le> 32 + 1000 * length bs"
    and rp: "rp = 16" and bs: "length bs < 8" and n: "n \<le> 1000"
    by (auto simp: canned_service_def canned_busy_def)
  let ?t = "set_mem (mem_of st @ replicate n 0) st"
  have "unat (of_nat n :: i32) = n"
    using n by (simp add: unsigned_of_nat take_bit_nat_eq_self)
  then have "call_export (canned_E T imp) malloc_name [of_nat n, 1] st = (?t, Inr (of_nat (length (mem_of st))))"
    by (simp add: demo_malloc_def)
  moreover have p: "sint (of_nat (length (mem_of st)) :: i32) = int (length (mem_of st))"
    by (rule sint_small) (use len bs in simp)
  moreover have "canned_busy (mem_update (length (mem_of st)) (utf8_encode s) ?t) 16 (bs @ [(q, s)])"
    if "length (utf8_encode s) \<le> n" for s q
    using that n len bs by (simp add: canned_busy_def length_put_at)
  ultimately show "\<exists>t p. call_export (canned_E T imp) malloc_name [of_nat n, 1] st = (t, Inr p)
        \<and> 0 \<le> sint p \<and> nat (sint p) + n \<le> length (mem_of t)
        \<and> (\<forall>s. length (utf8_encode s) \<le> n \<longrightarrow>
             sv_busy (canned_service T) (mem_update (nat (sint p)) (utf8_encode s) t) rp (bs @ [(p, s)]))"
    using rp by (intro exI [of _ ?t] exI [of _ "of_nat (length (mem_of st))"]) (simp add: canned_service_def)
qed

lemma canned_answers:
  assumes "canned_ok T"
  shows "answers_call (canned_E T imp) (canned_service T)"
  unfolding answers_call_def
proof (intro allI impI, elim conjE)
  fix st rp and bs :: "(i32 \<times> jstr) list" and fn f
  assume busy: "sv_busy (canned_service T) st rp bs" and f: "sv_table (canned_service T) fn = Some (length bs, f)"
  then obtain a where a: "map_of T fn = Some (length bs, a)" "f = (\<lambda>_. a)"
    by (auto simp: canned_service_def)
  note g = canned_get [OF assms a(1)]
  have len: "32 \<le> length (mem_of st)" "length (mem_of st) \<le> 8032" and rp: "rp = 16"
    using busy by (auto simp: canned_service_def canned_busy_def)
  let ?t = "return_area (length (mem_of st)) (length (utf8_encode a)) (set_mem (mem_of st @ utf8_encode a) st)"
  have "call_export (canned_E T imp) fn args st = (?t, Inr 0)" for args
    using g(1) by (simp add: call_export_def canned_fn_def)
  moreover have "holds_result (mem_of ?t) 16 (of_nat (length (mem_of st))) (of_nat (length (utf8_encode a))) (utf8_encode a)"
    by (rule return_area_holds) (use len g(2) in simp_all)
  ultimately show "\<exists>t r r0 r1. call_export (canned_E T imp) fn
          (rp # arg_words (map fst bs) (map (\<lambda>b. utf8_encode (snd b)) bs)) st = (t, Inr r)
        \<and> holds_result (mem_of t) rp r0 r1 (utf8_encode (f (map snd bs)))
        \<and> sv_done (canned_service T) t r0 r1"
    using rp len(1) a(2)
    by (intro exI [of _ ?t] exI [of _ 0] exI [of _ "of_nat (length (mem_of st))"]
        exI [of _ "of_nat (length (utf8_encode a))"]) (simp add: canned_service_def)
qed

theorem canned_serves:
  assumes "canned_ok T"
  shows "serves (canned_E T imp) (canned_service T)"
proof -
  have "reserves (canned_E T imp) (canned_service T)"
    by (simp add: reserves_def demo_sp_def canned_service_def canned_busy_def)
  moreover have "releases (canned_E T imp) (canned_service T)"
    by (simp add: releases_def demo_sp_def demo_free_def canned_service_def)
  moreover have "is_func (canned_E T imp) fn" if "fn \<in> dom (sv_table (canned_service T))" for fn
    using that canned_get(1) [OF assms] by (auto simp: canned_service_def is_func_def)
  ultimately show ?thesis
    using canned_allocates canned_answers [OF assms] by (simp add: serves_def)
qed

text \<open>The world of the demonstration with such a module instead.\<close>

definition canned_world :: "canned \<Rightarrow> jstr list \<Rightarrow> (jstr \<times> byte list) list \<Rightarrow> unit world" where
  "canned_world T args files = (demo_world args None files [])\<lparr>compile_wasm := (\<lambda>b. Inr (canned_module T))\<rparr>"

lemma canned_world_simps [simp]:
  "argv (canned_world T args files) = args"
  "exists_file (canned_world T args files) p = (map_of files p \<noteq> None)"
  "read_file (canned_world T args files) p =
     (case map_of files p of Some b \<Rightarrow> Inr b | None \<Rightarrow> Inl (Fault (Io_error p)))"
  "engine_texts (canned_world T args files) = demo_texts"
  "compile_wasm (canned_world T args files) b = Inr (canned_module T)"
  by (simp_all add: canned_world_def)

lemma canned_idle: "sv_idle (canned_service T) demo_ready"
  by (simp add: canned_service_def demo_ready_def demo_state_def)

lemma canned_offers:
  "canned_ok T \<Longrightarrow> map_of files p = Some b \<Longrightarrow> p \<noteq> [] \<Longrightarrow>
     offers (canned_world T args files) p imp (canned_service T)"
  by (simp add: offers_def load_wasm_def instantiate_bytes_def canned_instantiate canned_serves canned_idle)

lemma canned_answerable:
  "map_of T fn = Some (length ss, a) \<Longrightarrow> length ss \<le> 8 \<Longrightarrow>
     list_all (\<lambda>s. length (utf8_encode s) \<le> 1000) ss \<Longrightarrow> answerable (canned_service T) (fn, ss)"
  by (simp add: answerable_def canned_service_def)

lemma canned_answer:
  "map_of T fn = Some (n, a) \<Longrightarrow> service_answer (canned_service T) (fn, ss) = to_well_formed (drop_bom a)"
  by (simp add: service_answer_def canned_service_def)

end
