(* ===== verification/Verify_Demo.thy ===== *)
theory Verify_Demo
  imports Host_Verify Canned_Demo
begin

text \<open>
  Paths without dot segments, and a corpus of one vector with an engine for it, for the witnesses of the
  corpus verifier.
\<close>

section \<open>Paths without dot segments\<close>

definition plain_segment :: "jstr \<Rightarrow> bool" where
  "plain_segment s \<longleftrightarrow> s \<notin> {[], js ''.'', js ''..''} \<and> 47 \<notin> set s"

lemma slash_js [simp]: "47 \<in> set (js s) \<longleftrightarrow> CHR ''/'' \<in> set s"
proof -
  have "(47 :: cu) = of_char (CHR ''/'')" by simp
  then show ?thesis by (simp only: js_def set_map) (auto simp: of_char_cu_inject simp del: of_char_Char)
qed

lemma split_segment: "47 \<notin> set s \<Longrightarrow> split_path (s @ 47 # t) = s # split_path t"
  "47 \<notin> set s \<Longrightarrow> split_path s = [s]"
  by (induction s) auto

lemma split_join: "segs \<noteq> [] \<Longrightarrow> list_all (\<lambda>s. 47 \<notin> set s) segs \<Longrightarrow> split_path (join [47] segs) = segs"
  by (induction "[47] :: jstr" segs rule: join.induct) (simp_all add: split_segment)

lemma resolve_plain: "list_all plain_segment segs \<Longrightarrow> resolve_segments up kept segs = rev kept @ segs"
  by (induction segs arbitrary: kept) (simp_all add: plain_segment_def)

lemma join_append: "xs \<noteq> [] \<Longrightarrow> ys \<noteq> [] \<Longrightarrow> join sep (xs @ ys) = join sep xs @ sep @ join sep ys"
proof (induction sep xs rule: join.induct)
  case (2 sep s)
  then show ?case by (cases ys) simp_all
qed simp_all

lemma join_ends:
  assumes "segs \<noteq> []" "list_all plain_segment segs"
  shows "join [47] segs \<noteq> [] \<and> hd (join [47] segs) \<noteq> 47 \<and> last (join [47] segs) \<noteq> 47"
  using assms
proof (induction "[47] :: jstr" segs rule: join.induct)
  case (2 s)
  then have "s \<noteq> []" "47 \<notin> set s" by (simp_all add: plain_segment_def)
  then show ?case by (metis hd_in_set last_in_set join.simps(2))
next
  case (3 s t ss)
  then show ?case by (cases s) (auto simp: plain_segment_def)
qed simp

text \<open>Joining names without dot segments is putting a slash between them.\<close>

lemma path_join_plain:
  assumes "ds \<noteq> []" "segs \<noteq> []" "list_all plain_segment (ds @ segs)"
  shows "path_join (join [47] ds) (join [47] segs) = join [47] ds @ [47] @ join [47] segs"
proof -
  let ?p = "join [47] (ds @ segs)"
  have p: "?p = join [47] ds @ [47] @ join [47] segs" by (rule join_append [OF assms(1,2)])
  have "list_all (\<lambda>s. 47 \<notin> set s) (ds @ segs)" using assms(3) by (auto simp: list_all_iff plain_segment_def)
  then have "split_path ?p = ds @ segs" by (intro split_join) (simp_all add: assms)
  then have "normalize_path ?p = ?p"
    using join_ends [of "ds @ segs"] resolve_plain [OF assms(3)] assms(1,3)
    by (simp add: normalize_path_def Let_def)
  then show ?thesis
    using p join_ends [of ds] join_ends [of segs] assms by (simp add: path_join_def)
qed

section \<open>A corpus of one vector\<close>

text \<open>What the engine answers: to a validation, the value \<open>v\<close>.\<close>

definition report_value :: jv where
  "report_value = JObj [(js ''dialects'', JArr [JObj [(js ''dialect'', str ''SHACL''), (js ''status'', str ''ok''),
       (js ''triples_out'', JNum (NInt 2))]]), (js ''replay'', JBool True)]"

definition error_value :: jv where
  "error_value = JObj [(js ''error'', str ''shapes'')]"

definition hooks_value :: jv where
  "hooks_value = JObj [(js ''status'', str ''ok''), (js ''verdicts'', JArr [JNull]), (js ''receipts'', JArr []),
     (js ''schedule'', JNull)]"

definition demo_engine :: "jv \<Rightarrow> canned" where
  "demo_engine v =
     [(js ''validate_all'', 5, stringify v), (js ''run_hooks'', 2, stringify hooks_value),
      (js ''graph_hash'', 1, js ''h''), (js ''graphlaw_version'', 0, js ''1''), (js ''blake3_hex'', 1, js ''b'')]"

definition manifest_value :: jv where
  "manifest_value = JObj [(js ''files'', JObj [(js ''v.ttl'', str ''0''), (js ''v.expected.json'', str ''1'')])]"

definition sidecar_value :: jv where
  "sidecar_value = JObj [(js ''file'', str ''v.ttl''), (js ''vector'', str ''v'')]"

definition demo_files :: "(jstr \<times> byte list) list" where
  "demo_files =
     [(js ''w'', demo_wasm), (js ''c/MANIFEST.json'', utf8_encode (stringify manifest_value)),
      (js ''c/v.expected.json'', utf8_encode (stringify sidecar_value)), (js ''c/v.ttl'', utf8_encode (js ''s''))]"

definition constant_files :: "(jstr \<times> byte list) list" where
  "constant_files = map (\<lambda>f. (js ''c/'' @ f, utf8_encode (js ''p''))) corpus_files"

definition demo_corpus_world :: "jv \<Rightarrow> (jstr \<times> byte list) list \<Rightarrow> unit world" where
  "demo_corpus_world v files =
     canned_world (demo_engine v) [js ''node'', js ''verify.mjs'', js ''c'', js ''w''] files"

lemma words_ordered:
  "own_order [js ''dialects'', js ''replay'']" "own_order [js ''dialect'', js ''status'', js ''triples_out'']"
  "own_order [js ''error'']" "own_order [js ''status'', js ''verdicts'', js ''receipts'', js ''schedule'']"
  "own_order [js ''files'']" "own_order [js ''v.ttl'', js ''v.expected.json'']" "own_order [js ''file'', js ''vector'']"
  by (rule own_order_words; simp add: is_digit_def)+

lemma demo_values_plain [simp]:
  "plain report_value" "plain error_value" "plain hooks_value" "plain manifest_value" "plain sidecar_value"
  by (simp_all add: report_value_def error_value_def hooks_value_def manifest_value_def sidecar_value_def words_ordered)

lemma drop_bom_object [simp]: "drop_bom (stringify (JObj kvs)) = stringify (JObj kvs)"
  by (simp add: stringify.simps drop_bom_def)

lemma stringify_wf [simp]: "to_well_formed (stringify v) = stringify v"
  by (rule to_well_formed_id [OF stringify_well_formed])

text \<open>What the corpus reads as.\<close>

lemma demo_paths:
  "path_join (js ''c'') (js ''MANIFEST.json'') = js ''c/MANIFEST.json''"
  "path_join (js ''c'') (js ''v.expected.json'') = js ''c/v.expected.json''"
  "path_join (js ''c'') (js ''v.ttl'') = js ''c/v.ttl''"
  using path_join_plain [of "[js ''c'']" "[js ''MANIFEST.json'']"]
    path_join_plain [of "[js ''c'']" "[js ''v.expected.json'']"] path_join_plain [of "[js ''c'']" "[js ''v.ttl'']"]
  by (simp_all add: plain_segment_def js_Cons)

lemma demo_constant_paths:
  "list_all (\<lambda>f. path_join (js ''c'') f = js ''c/'' @ f) corpus_files"
  using path_join_plain [of "[js ''c'']" "[js ''rules'', js ''denials.n3'']"]
    path_join_plain [of "[js ''c'']" "[js ''hooks'', js ''admitted_hooks.ttl'']"]
    path_join_plain [of "[js ''c'']" "[f]" for f]
  by (simp add: corpus_files_def plain_segment_def js_Cons)

lemma demo_manifest:
  "verify_json (demo_corpus_world v (demo_files @ fs)) (js ''c'') (js ''MANIFEST.json'') = Inr manifest_value"
  "verify_json (demo_corpus_world v (demo_files @ fs)) (js ''c'') (js ''v.expected.json'') = Inr sidecar_value"
  "verify_read (demo_corpus_world v (demo_files @ fs)) (js ''c'') (js ''v.ttl'') = Inr (js ''s'')"
  by (simp_all add: verify_json_def verify_read_def read_text_def demo_paths demo_corpus_world_def demo_files_def
      wire_roundtrip utf8_roundtrip well_formed_asciiI)

definition demo_corpus :: corpus where
  "demo_corpus = \<lparr>co_profile = js ''p'', co_shapes_full = js ''p'', co_shapes_violations = js ''p'',
     co_shapes_warnings = js ''p'', co_shex = js ''p'', co_shape_map = js ''p'', co_rules = js ''p'',
     co_hooks = js ''p'', co_event = js ''p''\<rparr>"

lemma map_of_prefix: "map_of (map (\<lambda>f. (p @ f, b)) fs) (p @ f) = (if f \<in> set fs then Some b else None)"
  by (induction fs) auto

lemma demo_load: "verify_load (demo_corpus_world v (demo_files @ constant_files)) (js ''c'') = Inr demo_corpus"
proof -
  have r: "verify_read (demo_corpus_world v (demo_files @ constant_files)) (js ''c'') f = Inr (js ''p'')"
    if f: "f \<in> set corpus_files" for f
  proof -
    have "path_join (js ''c'') f = js ''c/'' @ f" using demo_constant_paths f by (simp add: list_all_iff)
    moreover have "map_of demo_files (js ''c/'' @ f) = None"
      using f by (auto simp: demo_files_def corpus_files_def simp flip: js_append)
    moreover have "map_of constant_files (js ''c/'' @ f) = Some (utf8_encode (js ''p''))"
      using f by (simp add: constant_files_def map_of_prefix)
    ultimately show ?thesis
      by (simp add: verify_read_def read_text_def demo_corpus_world_def map_add_def utf8_roundtrip well_formed_asciiI)
  qed
  have "read_all rd fs = Inr (map (\<lambda>f. js ''p'') fs)" if "\<forall>f \<in> set fs. rd f = Inr (js ''p'')" for rd fs
    using that by (induction fs) auto
  then have "read_all (verify_read (demo_corpus_world v (demo_files @ constant_files)) (js ''c'')) corpus_files
      = Inr (map (\<lambda>f. js ''p'') corpus_files)"
    using r by blast
  then show ?thesis by (simp add: verify_load_def corpus_files_def demo_corpus_def)
qed

lemma demo_value_texts:
  "stringify hooks_value = js ''{\"status\":\"ok\",\"verdicts\":[null],\"receipts\":[],\"schedule\":null}''"
  "stringify error_value = js ''{\"error\":\"shapes\"}''"
  "stringify report_value
     = js ''{\"dialects\":[{\"dialect\":\"SHACL\",\"status\":\"ok\",\"triples_out\":2}],\"replay\":true}''"
  by (simp_all add: hooks_value_def error_value_def report_value_def stringify.simps quote_quiet quiet_js json_num_def
      int_text_def nat_text_def dec_digits.simps digit_text_def)
     (simp_all add: js_def)

lemma demo_engine_ok: "canned_ok (demo_engine error_value)" "canned_ok (demo_engine report_value)"
  by (simp_all add: canned_ok_def demo_engine_def demo_value_texts length_utf8_ascii)

lemma demo_engine_answers:
  "service_answer (canned_service (demo_engine (JObj kvs))) (js ''validate_all'', ss) = stringify (JObj kvs)"
  "service_answer (canned_service (demo_engine v)) (js ''run_hooks'', ss) = stringify hooks_value"
  "service_answer (canned_service (demo_engine v)) (js ''graph_hash'', ss) = js ''h''"
  "service_answer (canned_service (demo_engine v)) (js ''graphlaw_version'', ss) = js ''1''"
  "service_answer (canned_service (demo_engine v)) (js ''blake3_hex'', ss) = js ''b''"
proof -
  have "drop_bom (stringify hooks_value) = stringify hooks_value" by (simp add: hooks_value_def)
  then show "service_answer (canned_service (demo_engine v)) (js ''run_hooks'', ss) = stringify hooks_value"
    by (simp add: service_answer_def canned_service_def demo_engine_def)
qed (simp_all add: service_answer_def canned_service_def demo_engine_def drop_bom_ascii to_well_formed_id
      well_formed_asciiI)

lemma demo_law: "lawGraph demo_corpus (js ''s'') = js ''s'' @ [10] @ js ''p'' @ [10] @ js ''p''"
  by (simp add: lawGraph_def demo_corpus_def)

lemma demo_engine_answerable:
  "answerable (canned_service (demo_engine v)) (js ''graphlaw_version'', [])"
  "answerable (canned_service (demo_engine v)) (js ''blake3_hex'', [js ''abc''])"
  by (rule canned_answerable; simp add: demo_engine_def length_utf8_ascii)+

end
