(* ===== verification/Verify_Facts.thy ===== *)
theory Verify_Facts
  imports Json_Order Verify_Demo
begin

text \<open>
  The corpus verifier: its output is a function of the corpus and of the engine's answers; which
  functions of the engine it calls; how it ends and what its caller can decode; what a printed vector
  looks like; and what happens to faults it does not catch.
\<close>

section \<open>The measurement as a function of the answers\<close>

text \<open>
  The reference: the engine is a function \<open>ask\<close> from calls to texts and there is no instance, no memory
  and no protocol.
\<close>

definition ref_validate :: "(jstr \<times> jstr list \<Rightarrow> jstr) \<Rightarrow> corpus \<Rightarrow> jstr \<Rightarrow> jstr \<Rightarrow> exn + validation" where
  "ref_validate ask c subject shapes =
     bindE (json_parse (ask (js ''validate_all'',
       [lawGraph c subject, co_profile c, shapes, co_shex c, co_shape_map c]))) verify_report"

definition ref_vector :: "(jstr \<times> jstr list \<Rightarrow> jstr) \<Rightarrow> corpus \<Rightarrow> jv option \<Rightarrow> jstr \<Rightarrow> exn + jv" where
  "ref_vector ask c fileName subject =
     bindE (ref_validate ask c subject (co_shapes_full c)) (\<lambda>full.
     bindE (json_parse (ask (js ''run_hooks'', [lawGraph c subject, co_event c]))) (\<lambda>hooksRun.
     bindE (ref_validate ask c subject (co_shapes_violations c)) (\<lambda>violations.
     bindE (ref_validate ask c subject (co_shapes_warnings c)) (\<lambda>warnings.
     bindE (hooks_summary hooksRun) (\<lambda>hooks.
     Inr (vector_object fileName (ask (js ''graph_hash'', [subject]))
       (ask (js ''graph_hash'', [lawGraph c subject])) full violations warnings hooks))))))"

definition ref_sidecar ::
  "'s world \<Rightarrow> jstr \<Rightarrow> (jstr \<times> jstr list \<Rightarrow> jstr) \<Rightarrow> corpus \<Rightarrow> jstr \<Rightarrow> exn + jstr \<times> jv" where
  "ref_sidecar W dir ask c rel =
     bindE (verify_json W dir rel) (\<lambda>sidecar.
     bindE (get_prop sidecar (js ''file'')) (\<lambda>fileName.
     bindE (verify_read_value W dir fileName) (\<lambda>subject.
     bindE (ref_vector ask c fileName subject) (\<lambda>v.
     bindE (get_prop sidecar (js ''vector'')) (\<lambda>name.
     bindE (to_string_opt name) (\<lambda>k. Inr (k, v)))))))"

text \<open>The vectors in the order of the sidecars: the last one wins a name.\<close>

fun ref_vectors :: "(jstr \<times> jv) list \<Rightarrow> (exn + jstr \<times> jv) list \<Rightarrow> exn + (jstr \<times> jv) list" where
  "ref_vectors acc [] = Inr acc"
| "ref_vectors acc (r # rs) = bindE r (\<lambda>(k, v). ref_vectors (vector_put acc k v) rs)"

definition ref_run ::
  "(byte list \<Rightarrow> jstr) \<Rightarrow> 's world \<Rightarrow> jstr \<Rightarrow> byte list \<Rightarrow> (jstr \<times> jstr list \<Rightarrow> jstr) \<Rightarrow> jv \<Rightarrow> corpus \<Rightarrow> outcome" where
  "ref_run sha256 W dir bytes ask manifest c =
     (case bindE (bindE (get_prop manifest (js ''files'')) object_keys)
             (\<lambda>keys. ref_vectors [] (map (ref_sidecar W dir ask c) (sidecars keys))) of
        Inl e \<Rightarrow> verify_exit 5 (js ''measurement failed: '' @ message_of (engine_texts W) e)
      | Inr vectors \<Rightarrow>
          Exit (verify_line sha256 bytes (ask (js ''graphlaw_version'', []))
                 (ask (js ''blake3_hex'', [js ''abc''])) vectors) 0)"

text \<open>A computation that, on an idle instance, returns \<open>r\<close> and leaves the instance idle.\<close>

definition computes :: "'s service \<Rightarrow> ('s inst, 'a) comp \<Rightarrow> exn + 'a \<Rightarrow> bool" where
  "computes sv m r \<longleftrightarrow> (\<forall>st. sv_idle sv st \<longrightarrow> (\<exists>t. m st = (t, r) \<and> sv_idle sv t))"

named_theorems computes_intros

lemma computes_pure [computes_intros]:
  "computes sv (liftC r) r" "computes sv (returnC a) (Inr a)"
  by (simp_all add: computes_def)

lemma computes_bind [computes_intros]:
  assumes "computes sv m r" "\<And>a. r = Inr a \<Longrightarrow> computes sv (f a) (g a)"
  shows "computes sv (bindC m f) (bindE r g)"
  unfolding computes_def
proof (intro allI impI)
  fix st assume "sv_idle sv st"
  then obtain t where t: "m st = (t, r)" "sv_idle sv t" using assms(1) unfolding computes_def by blast
  show "\<exists>t. bindC m f st = (t, bindE r g) \<and> sv_idle sv t"
  proof (cases r)
    case (Inr a)
    then obtain u where "f a t = (u, g a)" "sv_idle sv u"
      using assms(2) [OF Inr] t(2) unfolding computes_def by blast
    then show ?thesis using t(1) Inr by (simp add: bindC_def)
  qed (use t in \<open>simp add: bindC_def\<close>)
qed

lemma verify_call_computes:
  assumes "serves E sv" "answerable sv (fn, ss)"
  shows "computes sv (verify_call E fn ss) (Inr (service_answer sv (fn, ss)))"
proof -
  have "verify_putStr E = (\<lambda>s. put_bytes E (length (utf8_encode s)) (utf8_encode s))"
    by (simp add: fun_eq_iff verify_putStr_def Let_def)
  then show ?thesis
    using exchange_answers [OF assms(1) _ assms(2), of _ length] by (simp add: computes_def verify_call_def)
qed

text \<open>A call followed by a continuation.\<close>

lemma verify_call_bind [computes_intros]:
  assumes "serves E sv" "answerable sv (fn, ss)" "computes sv (f (service_answer sv (fn, ss))) r"
  shows "computes sv (bindC (verify_call E fn ss) f) r"
  using computes_bind [OF verify_call_computes [OF assms(1,2)], of f "\<lambda>_. r"] assms(3) by simp

text \<open>The calls made for one subject.\<close>

definition vector_calls :: "corpus \<Rightarrow> jstr \<Rightarrow> (jstr \<times> jstr list) list" where
  "vector_calls c subject =
     map (\<lambda>shapes. (js ''validate_all'', [lawGraph c subject, co_profile c, shapes, co_shex c, co_shape_map c]))
       [co_shapes_full c, co_shapes_violations c, co_shapes_warnings c]
     @ [(js ''run_hooks'', [lawGraph c subject, co_event c]), (js ''graph_hash'', [subject]),
        (js ''graph_hash'', [lawGraph c subject])]"

lemma verify_validate_computes:
  assumes "serves E sv"
    and "answerable sv (js ''validate_all'', [lawGraph c subject, co_profile c, shapes, co_shex c, co_shape_map c])"
  shows "computes sv (verify_validate E c subject shapes) (ref_validate (service_answer sv) c subject shapes)"
  unfolding verify_validate_def ref_validate_def by (intro computes_intros assms)

lemma verify_vector_computes:
  assumes "serves E sv" "list_all (answerable sv) (vector_calls c subject)"
  shows "computes sv (verify_vector E c fileName subject) (ref_vector (service_answer sv) c fileName subject)"
  unfolding verify_vector_def ref_vector_def
  by (intro computes_intros verify_validate_computes)
     (use assms in \<open>simp_all add: vector_calls_def\<close>)

text \<open>The subject a sidecar names can be measured; a sidecar that cannot be read is no hindrance.\<close>

definition measurable :: "'s world \<Rightarrow> jstr \<Rightarrow> 's service \<Rightarrow> corpus \<Rightarrow> jstr \<Rightarrow> bool" where
  "measurable W dir sv c rel \<longleftrightarrow>
     (case bindE (verify_json W dir rel) (\<lambda>sidecar.
           bindE (get_prop sidecar (js ''file'')) (verify_read_value W dir)) of
        Inl e \<Rightarrow> True
      | Inr subject \<Rightarrow> list_all (answerable sv) (vector_calls c subject))"

lemma verify_sidecar_computes:
  assumes "serves E sv" "measurable W dir sv c rel"
  shows "computes sv (verify_sidecar W dir E c rel) (ref_sidecar W dir (service_answer sv) c rel)"
  unfolding verify_sidecar_def ref_sidecar_def
  by (intro computes_intros verify_vector_computes)
     (use assms in \<open>simp_all add: measurable_def\<close>)

lemma verify_sidecars_computes:
  assumes "serves E sv" "list_all (measurable W dir sv c) rels"
  shows "computes sv (verify_sidecars W dir E c rels acc)
      (ref_vectors acc (map (ref_sidecar W dir (service_answer sv) c) rels))"
  using assms(2)
proof (induction rels arbitrary: acc)
  case Nil
  show ?case unfolding verify_sidecars.simps list.map ref_vectors.simps by (rule computes_pure)
next
  case (Cons rel rels)
  have "computes sv (verify_sidecar W dir E c rel) (ref_sidecar W dir (service_answer sv) c rel)"
    using verify_sidecar_computes [OF assms(1)] Cons.prems by simp
  then show ?case
    unfolding verify_sidecars.simps list.map ref_vectors.simps
    by (rule computes_bind) (use Cons in \<open>auto split: prod.split\<close>)
qed

text \<open>What the engine must be able to answer for the corpus at \<open>dir\<close>.\<close>

definition corpus_answerable :: "'s world \<Rightarrow> jstr \<Rightarrow> 's service \<Rightarrow> jv \<Rightarrow> corpus \<Rightarrow> bool" where
  "corpus_answerable W dir sv manifest c \<longleftrightarrow>
     answerable sv (js ''graphlaw_version'', []) \<and> answerable sv (js ''blake3_hex'', [js ''abc''])
     \<and> (case bindE (get_prop manifest (js ''files'')) object_keys of
          Inl e \<Rightarrow> True
        | Inr keys \<Rightarrow> list_all (measurable W dir sv c) (sidecars keys))"

lemma verify_print_computes:
  assumes "serves E sv" "answerable sv (js ''graphlaw_version'', [])" "answerable sv (js ''blake3_hex'', [js ''abc''])"
  shows "computes sv (verify_print sha256 bytes E vectors)
      (Inr (verify_line sha256 bytes (service_answer sv (js ''graphlaw_version'', []))
        (service_answer sv (js ''blake3_hex'', [js ''abc''])) vectors))"
  unfolding verify_print_def
  by (rule verify_call_bind [OF assms(1,2)], rule verify_call_bind [OF assms(1,3)], rule computes_pure)

lemma computesD: "computes sv m r \<Longrightarrow> sv_idle sv st \<Longrightarrow> snd (m st) = r \<and> sv_idle sv (fst (m st))"
  unfolding computes_def by (metis fst_conv snd_conv)

lemma verify_run_ref:
  assumes "serves E sv" "sv_idle sv st" "corpus_answerable W dir sv manifest c"
  shows "verify_run sha256 W dir bytes E st manifest c
      = ref_run sha256 W dir bytes (service_answer sv) manifest c"
proof -
  let ?ref = "bindE (bindE (get_prop manifest (js ''files'')) object_keys)
      (\<lambda>keys. ref_vectors [] (map (ref_sidecar W dir (service_answer sv) c) (sidecars keys)))"
  have "computes sv (verify_measure W dir E c manifest) ?ref"
    unfolding verify_measure_def bindC_liftC_bindE [symmetric]
    by (intro computes_intros verify_sidecars_computes assms(1))
       (use assms(3) in \<open>simp add: corpus_answerable_def\<close>)
  note m = computesD [OF this assms(2)]
  have a: "answerable sv (js ''graphlaw_version'', [])" "answerable sv (js ''blake3_hex'', [js ''abc''])"
    using assms(3) unfolding corpus_answerable_def by blast+
  note p = computesD [OF verify_print_computes [OF assms(1) a] conjunct2 [OF m]]
  show ?thesis
    unfolding verify_run_def ref_run_def split_beta conjunct1 [OF m]
    by (rule sum.case_cong [OF HOL.refl]) (simp_all add: p)
qed

section \<open>The whole run\<close>

lemma verify_main_loaded:
  assumes "argv W = node # script # dir # wasm # rest" "dir \<noteq> []" "wasm \<noteq> []" "exists_file W wasm"
    and "read_file W wasm = Inr bytes" "instantiate_bytes W bytes verify_imports = Inr (E, st)"
  shows "verify_main sha256 W = verify_corpus sha256 W dir bytes E st"
  using assms by (simp add: verify_main_def arg_at_def blank_def)

text \<open>
  C4: the printed measurements are a function of the corpus and of the engine's answers. On an engine that
  keeps the calling convention, the process prints exactly what the reference computes that has no instance,
  no memory and no protocol, and fails exactly where the reference fails, whatever the order of
  allocations or the state the instance is left in between two measurements.
\<close>

theorem verify_equals_reference:
  assumes "argv W = node # script # dir # wasm # rest" "dir \<noteq> []" "offers W wasm verify_imports sv"
    and "read_file W wasm = Inr bytes" "exists_file W (path_join dir (js ''MANIFEST.json''))"
    and "verify_json W dir (js ''MANIFEST.json'') = Inr manifest" "verify_load W dir = Inr c"
    and "corpus_answerable W dir sv manifest c"
  shows "verify_main sha256 W = ref_run sha256 W dir bytes (service_answer sv) manifest c"
proof -
  obtain E st where i: "wasm \<noteq> []" "exists_file W wasm" "instantiate_bytes W bytes verify_imports = Inr (E, st)"
    and sv: "serves E sv" "sv_idle sv st"
    using assms(3,4) by (auto elim: offersE)
  have "verify_main sha256 W = verify_corpus sha256 W dir bytes E st"
    by (rule verify_main_loaded [OF assms(1,2) i(1,2) assms(4) i(3)])
  also have "\<dots> = verify_run sha256 W dir bytes E st manifest c"
    using assms(5-7) by (simp add: verify_corpus_def)
  also have "\<dots> = ref_run sha256 W dir bytes (service_answer sv) manifest c"
    by (rule verify_run_ref [OF sv assms(8)])
  finally show ?thesis .
qed

lemma demo_vector_calls: "list_all (answerable (canned_service (demo_engine v))) (vector_calls demo_corpus (js ''s''))"
  unfolding vector_calls_def demo_law list_all_append list.map list.pred_inject
  by (intro conjI canned_answerable)
     (simp_all add: demo_engine_def demo_corpus_def length_utf8_ascii js_Cons)

lemma demo_sidecars: "sidecars [js ''v.ttl'', js ''v.expected.json''] = [js ''v.expected.json'']"
  by (simp add: sidecars_def ends_with_def js_def)

lemma demo_files_keys: "bindE (get_prop manifest_value (js ''files'')) object_keys = Inr [js ''v.ttl'', js ''v.expected.json'']"
  by (simp add: manifest_value_def get_prop_def object_keys_def)

text \<open>The vector of the demonstration corpus.\<close>

definition demo_vector :: jv where
  "demo_vector = JObj
     [(js ''file'', str ''v.ttl''), (js ''graph_hash'', str ''h''), (js ''law_graph_hash'', str ''h''),
      (js ''dialects'', JObj [(js ''SHACL'', str ''ok'')]),
      (js ''shacl_by_severity_partition'',
         let s = JObj [(js ''status'', str ''ok''), (js ''results'', JNum (NInt 2))]
         in JObj [(js ''full'', s), (js ''violations_only'', s), (js ''warnings_only'', s)]),
      (js ''run_hooks'', JObj [(js ''status'', str ''ok''), (js ''verdicts'', JNum (NInt 1)),
         (js ''receipts'', JNum (NInt 0)), (js ''schedule'', JNull)]),
      (js ''replay'', JBool True)]"

lemma demo_ref_validate:
  "ref_validate (service_answer (canned_service (demo_engine report_value))) demo_corpus (js ''s'') shapes =
     Inr \<lparr>va_error = None, va_dialects = Some (JObj [(js ''SHACL'', str ''ok'')]),
          va_shacl = Some (JObj [(js ''status'', str ''ok''), (js ''results'', JNum (NInt 2))]),
          va_replay = Some (JBool True)\<rparr>"
proof -
  have "ref_validate (service_answer (canned_service (demo_engine report_value))) demo_corpus (js ''s'') shapes
      = verify_report report_value"
    using json_parse_stringify [OF demo_values_plain(1)] unfolding ref_validate_def
    by (simp add: report_value_def demo_engine_answers)
  also have "\<dots> = Inr \<lparr>va_error = None, va_dialects = Some (JObj [(js ''SHACL'', str ''ok'')]),
          va_shacl = Some (JObj [(js ''status'', str ''ok''), (js ''results'', JNum (NInt 2))]),
          va_replay = Some (JBool True)\<rparr>"
    by (simp add: report_value_def verify_report_def get_prop_def truthy_opt_def dialect_list_def to_string_opt_def
        shacl_summary_def obj_put_def index_key_word is_digit_def)
  finally show ?thesis .
qed

lemma demo_hooks: "hooks_summary hooks_value = Inr (JObj [(js ''status'', str ''ok''),
    (js ''verdicts'', JNum (NInt 1)), (js ''receipts'', JNum (NInt 0)), (js ''schedule'', JNull)])"
  by (simp add: hooks_summary_def hooks_value_def get_prop_def truthy_opt_def length_prop_def)

lemma demo_ref_vector:
  "ref_vector (service_answer (canned_service (demo_engine report_value))) demo_corpus (Some (str ''v.ttl'')) (js ''s'')
     = Inr demo_vector"
  unfolding ref_vector_def demo_ref_validate demo_engine_answers json_parse_stringify [OF demo_values_plain(3)]
    bindE_simps demo_hooks
  by (simp add: vector_object_def shacl_partition_def demo_vector_def Let_def)

theorem verify_equals_reference_witness:
  "verify_main (\<lambda>b. js ''00'') (demo_corpus_world report_value (demo_files @ constant_files))
     = Exit (verify_line (\<lambda>b. js ''00'') demo_wasm (js ''1'') (js ''b'') [(js ''v'', demo_vector)]) 0"
proof -
  let ?W = "demo_corpus_world report_value (demo_files @ constant_files)"
  let ?sv = "canned_service (demo_engine report_value)"
  have m: "list_all (measurable ?W (js ''c'') ?sv demo_corpus) [js ''v.expected.json'']"
    using demo_vector_calls [of report_value]
    by (simp add: measurable_def demo_manifest sidecar_value_def get_prop_def verify_read_value_def)
  have "corpus_answerable ?W (js ''c'') ?sv manifest_value demo_corpus"
    unfolding corpus_answerable_def demo_files_keys sum.case demo_sidecars
    using m demo_engine_answerable by blast
  moreover have "offers ?W (js ''w'') verify_imports ?sv"
    unfolding demo_corpus_world_def
    by (rule canned_offers [where b = demo_wasm, OF demo_engine_ok(2)]) (simp_all add: demo_files_def)
  moreover have "ref_sidecar ?W (js ''c'') (service_answer ?sv) demo_corpus (js ''v.expected.json'')
      = Inr (js ''v'', demo_vector)"
    using demo_ref_vector
    by (simp add: ref_sidecar_def demo_manifest sidecar_value_def get_prop_def verify_read_value_def to_string_opt_def)
  then have "ref_run (\<lambda>b. js ''00'') ?W (js ''c'') demo_wasm (service_answer ?sv) manifest_value demo_corpus
      = Exit (verify_line (\<lambda>b. js ''00'') demo_wasm (js ''1'') (js ''b'') [(js ''v'', demo_vector)]) 0"
    unfolding ref_run_def demo_files_keys bindE_simps demo_sidecars
    by (simp add: vector_put_def obj_put_def index_key_word is_digit_def demo_engine_answers)
  ultimately show ?thesis
    using verify_equals_reference [of ?W "js ''node''" "js ''verify.mjs''" "js ''c''" "js ''w''" "[]" ?sv demo_wasm
        manifest_value demo_corpus "\<lambda>b. js ''00''"]
    by (simp add: demo_manifest demo_load demo_paths) (simp add: demo_corpus_world_def demo_files_def)
qed

section \<open>Only five exports are called\<close>

definition verify_names :: "jstr set" where
  "verify_names = js ` {''validate_all'', ''run_hooks'', ''graph_hash'', ''graphlaw_version'', ''blake3_hex''}"

lemma verify_names_simps [simp]:
  "js ''validate_all'' \<in> verify_names" "js ''run_hooks'' \<in> verify_names" "js ''graph_hash'' \<in> verify_names"
  by (simp_all add: verify_names_def)

lemma tracks_verify_call [tracks_intros]:
  "fn \<in> verify_names \<Longrightarrow> tracks (verify_names \<union> abi_names) (verify_call (traced E) fn ss) (verify_call E fn ss)"
  unfolding verify_call_def verify_putStr_def by (intro tracks_intros) auto

lemma tracks_verify_validate [tracks_intros]:
  "tracks (verify_names \<union> abi_names) (verify_validate (traced E) c subject shapes) (verify_validate E c subject shapes)"
  unfolding verify_validate_def by (intro tracks_intros) simp

lemma tracks_verify_vector [tracks_intros]:
  "tracks (verify_names \<union> abi_names) (verify_vector (traced E) c f subject) (verify_vector E c f subject)"
  unfolding verify_vector_def by (intro tracks_intros) simp_all

lemma verify_read_traced [simp]: "verify_read (traced_world W) = verify_read W"
  by (simp add: fun_eq_iff verify_read_def)

lemma verify_reads_traced [simp]:
  "verify_json (traced_world W) dir rel = verify_json W dir rel"
  "verify_read_value (traced_world W) dir v = verify_read_value W dir v"
  by (simp_all add: verify_json_def verify_read_value_def split: option.split jv.split)

lemma tracks_verify_sidecar [tracks_intros]:
  "tracks (verify_names \<union> abi_names) (verify_sidecar (traced_world W) dir (traced E) c rel) (verify_sidecar W dir E c rel)"
  unfolding verify_sidecar_def verify_reads_traced by (intro tracks_intros)

lemma tracks_verify_sidecars [tracks_intros]:
  "tracks (verify_names \<union> abi_names)
     (verify_sidecars (traced_world W) dir (traced E) c rels vs) (verify_sidecars W dir E c rels vs)"
proof (induction rels arbitrary: vs)
  case (Cons rel rels)
  show ?case unfolding verify_sidecars.simps by (intro tracks_intros Cons.IH)
qed (simp add: tracks_intros)

lemma tracks_verify_measure:
  "tracks (verify_names \<union> abi_names)
     (verify_measure (traced_world W) dir (traced E) c manifest) (verify_measure W dir E c manifest)"
  unfolding verify_measure_def by (intro tracks_intros)

text \<open>
  C16: measuring a corpus calls nothing of the module but the five functions of the engine and the three of
  the string protocol, whatever the manifest and the sidecars say; recording the calls changes
  neither the vectors nor the instance.
\<close>

theorem verify_calls_engine_only:
  "fst ` set (log_of (fst (verify_measure (traced_world W) dir (traced E) c manifest (logged st []))))
      \<subseteq> verify_names \<union> abi_names
   \<and> snd (verify_measure (traced_world W) dir (traced E) c manifest (logged st []))
      = snd (verify_measure W dir E c manifest st)
   \<and> erase (fst (verify_measure (traced_world W) dir (traced E) c manifest (logged st [])))
      = fst (verify_measure W dir E c manifest st)"
  using tracks_fresh [OF tracks_verify_measure [of W dir E c manifest], of st] by blast

section \<open>How the process ends\<close>

text \<open>
  The contract of a process that reports failures on standard output: it prints its result and exits with
  status 0, or one JSON object with the text of an error and exits with one of the statuses
  \<open>failures\<close>, or it dies of an exception with nothing printed.
\<close>

locale reporter =
  fixes run :: "'s world \<Rightarrow> outcome"
    and result :: "jstr \<Rightarrow> bool"
    and failures :: "nat set"
  assumes ends: "(\<exists>s. run W = Exit s 0 \<and> result s)
      \<or> (\<exists>code message. run W = Exit (stringify (JObj [(js ''error'', JStr message)]) @ [10]) code \<and> code \<in> failures)
      \<or> (\<exists>e. run W = Uncaught [] e)"
    and failures_nonzero: "0 \<notin> failures"
begin

lemma failure_text:
  assumes "run W = Exit s code" "code \<noteq> 0"
  shows "code \<in> failures \<and> (\<exists>message. json_parse s = Inr (JObj [(js ''error'', JStr message)]))"
proof -
  obtain message where s: "s = stringify (JObj [(js ''error'', JStr message)]) @ [10]" "code \<in> failures"
    using ends [of W] assms by auto
  have "plain (JObj [(js ''error'', JStr message)])" by (simp add: own_order_def)
  then have "parse_value (2 * length s + 2) s = Some (JObj [(js ''error'', JStr message)], [10])"
    unfolding s(1) by (intro readsD plain_trip) (simp_all add: delimited_def is_ws_def)
  then have "json_parse s = Inr (JObj [(js ''error'', JStr message)])"
    by (simp add: json_parse_def skip_ws_def is_ws_def)
  with s(2) show ?thesis by blast
qed

lemma success_result: "run W = Exit s 0 \<Longrightarrow> result s"
  using ends [of W] failures_nonzero by auto

lemma silent_crash: "run W = Uncaught s e \<Longrightarrow> s = []"
  using ends [of W] by auto

end

text \<open>A line with the five fields of a report.\<close>

definition report_line :: "(byte list \<Rightarrow> jstr) \<Rightarrow> jstr \<Rightarrow> bool" where
  "report_line sha256 s \<longleftrightarrow> (\<exists>bytes version abc vectors. s = verify_line sha256 bytes version abc vectors)"

lemma verify_run_ends:
  "(\<exists>s. verify_run sha256 W dir bytes E st manifest c = Exit s 0 \<and> report_line sha256 s)
   \<or> (\<exists>message. verify_run sha256 W dir bytes E st manifest c = verify_exit 5 message)
   \<or> (\<exists>e. verify_run sha256 W dir bytes E st manifest c = Uncaught [] e)"
proof -
  obtain t r where m: "verify_measure W dir E c manifest st = (t, r)" by fastforce
  show ?thesis
  proof (cases r)
    case (Inl e)
    then show ?thesis using m by (auto simp: verify_run_def)
  next
    case (Inr vs)
    obtain u q where p: "verify_print sha256 bytes E vs t = (u, q)" by fastforce
    show ?thesis
    proof (cases q)
      case (Inl e)
      then show ?thesis using m Inr p by (simp add: verify_run_def)
    next
      case q: (Inr s)
      then have "report_line sha256 s"
        using p by (auto simp: verify_print_def bindC_Inr_iff report_line_def)
      then show ?thesis using m Inr p q by (simp add: verify_run_def)
    qed
  qed
qed

interpretation verifier: reporter "verify_main sha256" "report_line sha256" "{2, 3, 4, 5}"
proof
  fix W :: "'s world"
  have run: "(\<exists>s. verify_corpus sha256 W dir bytes E st = Exit s 0 \<and> report_line sha256 s)
      \<or> (\<exists>code message. verify_corpus sha256 W dir bytes E st = verify_exit code message \<and> code \<in> {4, 5})
      \<or> (\<exists>e. verify_corpus sha256 W dir bytes E st = Uncaught [] e)" for dir bytes E st
    unfolding verify_corpus_def using verify_run_ends by (auto split: sum.split) blast+
  show "(\<exists>s. verify_main sha256 W = Exit s 0 \<and> report_line sha256 s)
      \<or> (\<exists>code message. verify_main sha256 W = Exit (stringify (JObj [(js ''error'', JStr message)]) @ [10]) code
            \<and> code \<in> {2, 3, 4, 5})
      \<or> (\<exists>e. verify_main sha256 W = Uncaught [] e)"
    unfolding verify_exit_def [symmetric]
    unfolding verify_main_def Let_def using run by (auto split: sum.split prod.split) blast+
qed simp

text \<open>
  C26: the caller can type every failure the process reports. A status other than 0 is one of 2, 3, 4 and 5
  and comes with standard output that parses to one object with an \<open>error\<close> text; status 0 comes with a
  report of five fields; and when the process dies of an exception standard output is empty.
\<close>

theorem verify_failures_typed:
  "case verify_main sha256 W of
     Exit s code \<Rightarrow>
       (if code = 0 then report_line sha256 s
        else code \<in> {2, 3, 4, 5} \<and> (\<exists>message. json_parse s = Inr (JObj [(js ''error'', JStr message)])))
   | Uncaught s e \<Rightarrow> s = []"
  using verifier.failure_text [of sha256 W] verifier.success_result [of sha256 W] verifier.silent_crash [of sha256 W]
  by (simp split: outcome.split)

section \<open>Faults that are not caught\<close>

lemma read_all_Inl:
  "read_all read (fs @ f # gs) = Inl e" if "list_all (\<lambda>g. \<exists>s. read g = Inr s) fs" "read f = Inl e"
  using that by (induction fs) auto

text \<open>
  C38: a corpus file that cannot be read is not reported. When the manifest is readable and one of the nine
  constant files is not, the process dies of the exception of the first such file with an empty
  standard output, although every file system fault is meant to become a JSON error with a status of its
  own; a sidecar that cannot be read is reported.
\<close>

theorem verify_unreadable_file_uncaught:
  assumes "argv W = node # script # dir # wasm # rest" "dir \<noteq> []" "wasm \<noteq> []" "exists_file W wasm"
    and "load_wasm W wasm verify_imports = Inr (E, st)" "exists_file W (path_join dir (js ''MANIFEST.json''))"
    and "verify_json W dir (js ''MANIFEST.json'') = Inr manifest"
    and "corpus_files = before @ f # after" "list_all (\<lambda>g. \<exists>s. verify_read W dir g = Inr s) before"
    and "verify_read W dir f = Inl e"
  shows "verify_main sha256 W = Uncaught [] e"
proof -
  obtain bytes where b: "read_file W wasm = Inr bytes" "instantiate_bytes W bytes verify_imports = Inr (E, st)"
    using assms(5) by (auto simp: load_wasm_def split: sum.splits)
  have "verify_load W dir = Inl e"
    unfolding verify_load_def assms(8) using read_all_Inl [OF assms(9,10)] by simp
  then show ?thesis
    using assms(6,7) verify_main_loaded [OF assms(1-4) b] by (simp add: verify_corpus_def)
qed

theorem verify_unreadable_file_uncaught_witness:
  "verify_main (\<lambda>b. js ''00'') (demo_corpus_world report_value demo_files)
     = Uncaught [] (Fault (Io_error (js ''c/profile.ttl'')))"
proof (rule verify_unreadable_file_uncaught)
  let ?W = "demo_corpus_world report_value demo_files"
  show "verify_json ?W (js ''c'') (js ''MANIFEST.json'') = Inr manifest_value"
    using demo_manifest(1) [where fs = "[]"] by simp
  show "corpus_files = [] @ js ''profile.ttl'' # tl corpus_files" by (simp add: corpus_files_def)
  have "path_join (js ''c'') (js ''profile.ttl'') = js ''c/profile.ttl''"
    using demo_constant_paths by (simp add: corpus_files_def flip: js_append)
  then show "verify_read ?W (js ''c'') (js ''profile.ttl'') = Inl (Fault (Io_error (js ''c/profile.ttl'')))"
    by (simp add: verify_read_def read_text_def demo_corpus_world_def demo_files_def)
  show "load_wasm ?W (js ''w'') verify_imports = Inr (canned_E (demo_engine report_value) verify_imports, demo_ready)"
    by (simp add: load_wasm_def instantiate_bytes_def canned_instantiate demo_corpus_world_def demo_files_def)
qed (simp_all add: demo_corpus_world_def demo_files_def demo_paths)

section \<open>The vectors\<close>

text \<open>A member that is present and an object.\<close>

definition object_member :: "(jstr \<times> jv) list \<Rightarrow> string \<Rightarrow> bool" where
  "object_member kvs k = (case map_of kvs (js k) of Some (JObj _) \<Rightarrow> True | _ \<Rightarrow> False)"

definition text_member :: "(jstr \<times> jv) list \<Rightarrow> string \<Rightarrow> bool" where
  "text_member kvs k = (case map_of kvs (js k) of Some (JStr _) \<Rightarrow> True | _ \<Rightarrow> False)"

definition vector_typed :: "jv \<Rightarrow> bool" where
  "vector_typed v =
     (case v of
        JObj kvs \<Rightarrow>
          text_member kvs ''file'' \<and> text_member kvs ''graph_hash'' \<and> text_member kvs ''law_graph_hash''
          \<and> (map_of kvs (js ''dialects'') = None \<or> object_member kvs ''dialects'')
          \<and> object_member kvs ''shacl_by_severity_partition'' \<and> object_member kvs ''run_hooks''
      | _ \<Rightarrow> False)"

lemma hooks_summary_object: "hooks_summary run = Inr h \<Longrightarrow> \<exists>kvs. h = JObj kvs"
  by (auto simp: hooks_summary_def bindE_Inr_iff split: if_splits)

text \<open>A validation is an error and nothing else, or has no error and its dialects are an object.\<close>

definition validation_ok :: "validation \<Rightarrow> bool" where
  "validation_ok r \<longleftrightarrow>
     (if va_error r = None then \<exists>kvs. va_dialects r = Some (JObj kvs)
      else va_dialects r = None \<and> va_shacl r = None \<and> va_replay r = None)"

lemma verify_report_ok: "verify_report v = Inr r \<Longrightarrow> validation_ok r"
  by (auto simp: verify_report_def bindE_Inr_iff validation_ok_def truthy_opt_def split: if_splits option.splits)

lemma verify_validate_ok: "verify_validate E c subject shapes st = (t, Inr r) \<Longrightarrow> validation_ok r"
  by (auto simp: verify_validate_def bindC_Inr_iff dest: verify_report_ok)

lemma vector_object_typed:
  assumes "validation_ok full"
  shows "vector_typed (vector_object (Some (JStr f)) g l full violations warnings (JObj hooks))"
proof -
  have "va_dialects full = None \<or> (\<exists>d. va_dialects full = Some (JObj d))"
    using assms by (auto simp: validation_ok_def split: if_splits)
  then show ?thesis
    by (cases "va_replay full")
       (auto simp: vector_typed_def vector_object_def text_member_def object_member_def shacl_partition_def)
qed

lemma verify_vector_typed:
  "verify_vector E c (Some (JStr f)) subject st = (t, Inr v) \<Longrightarrow> vector_typed v"
  by (auto simp: verify_vector_def bindC_Inr_iff dest!: verify_validate_ok hooks_summary_object
      intro: vector_object_typed)

lemma verify_read_value_text: "verify_read_value W dir v = Inr s \<Longrightarrow> \<exists>f. v = Some (JStr f)"
  by (simp add: verify_read_value_def split: option.splits jv.splits)

lemma verify_sidecar_parts:
  assumes "verify_sidecar W dir E c rel st = (t, Inr (k, v))"
  shows "\<exists>sidecar name f subject u u'. verify_json W dir rel = Inr sidecar
      \<and> verify_vector E c (Some (JStr f)) subject u = (u', Inr v)
      \<and> get_prop sidecar (js ''vector'') = Inr name \<and> to_string_opt name = Inr k"
proof -
  obtain sidecar fileName subject u u' name where
    p: "verify_json W dir rel = Inr sidecar" "verify_read_value W dir fileName = Inr subject"
      "verify_vector E c fileName subject u = (u', Inr v)"
      "get_prop sidecar (js ''vector'') = Inr name" "to_string_opt name = Inr k"
    using assms unfolding verify_sidecar_def
    by (auto simp only: bindC_Inr_iff liftC_apply returnC_apply prod.inject sum.inject)
  then show ?thesis using verify_read_value_text [OF p(2)] by blast
qed

lemma vector_put_typed:
  assumes "own_order (map fst vs)" "js ''__proto__'' \<notin> fst ` set vs" "list_all (\<lambda>kv. vector_typed (snd kv)) vs"
    and "vector_typed v"
  shows "own_order (map fst (vector_put vs k v)) \<and> js ''__proto__'' \<notin> fst ` set (vector_put vs k v)
      \<and> list_all (\<lambda>kv. vector_typed (snd kv)) (vector_put vs k v)"
proof (cases "k = js ''__proto__''")
  case False
  then show ?thesis
    using assms obj_put_own_order [OF assms(1), of k v] set_obj_put [of vs k v]
    unfolding vector_put_def list_all_iff by (fastforce simp del: set_map)
qed (use assms in \<open>simp add: vector_put_def\<close>)

lemma verify_sidecars_typed:
  assumes "verify_sidecars W dir E c rels acc st = (t, Inr vs)"
    and "own_order (map fst acc)" "js ''__proto__'' \<notin> fst ` set acc" "list_all (\<lambda>kv. vector_typed (snd kv)) acc"
  shows "own_order (map fst vs) \<and> js ''__proto__'' \<notin> fst ` set vs \<and> list_all (\<lambda>kv. vector_typed (snd kv)) vs"
  using assms
proof (induction rels arbitrary: acc st)
  case (Cons rel rels)
  obtain u k v where step: "verify_sidecar W dir E c rel st = (u, Inr (k, v))"
    "verify_sidecars W dir E c rels (vector_put acc k v) u = (t, Inr vs)"
    using Cons.prems(1) by (auto simp: bindC_Inr_iff)
  have "vector_typed v" using verify_sidecar_parts [OF step(1)] verify_vector_typed by blast
  then show ?case using Cons.IH [OF step(2)] vector_put_typed [OF Cons.prems(2-4), of v k] by blast
qed simp

text \<open>
  C20: the printed vectors are well typed. Whatever the corpus and the engine say, every vector of a
  completed measurement is an object with the texts \<open>file\<close>, \<open>graph_hash\<close> and \<open>law_graph_hash\<close>, the objects
  \<open>shacl_by_severity_partition\<close> and \<open>run_hooks\<close> and, if there is one, an object \<open>dialects\<close>; the names are in the order of
  the language, no name occurs twice and none is \<open>__proto__\<close>.
\<close>

theorem verify_vectors_typed:
  "case snd (verify_measure W dir E c manifest st) of
     Inl e \<Rightarrow> True
   | Inr vs \<Rightarrow> own_order (map fst vs) \<and> js ''__proto__'' \<notin> fst ` set vs
        \<and> list_all (\<lambda>kv. vector_typed (snd kv)) vs"
proof (cases "snd (verify_measure W dir E c manifest st)")
  case (Inr vs)
  then obtain t where "verify_measure W dir E c manifest st = (t, Inr vs)" by (metis prod.collapse)
  then obtain keys where "verify_sidecars W dir E c keys [] st = (t, Inr vs)"
    unfolding verify_measure_def
    by (auto simp only: bindC_Inr_iff liftC_apply prod.inject sum.inject)
  then have "own_order (map fst vs) \<and> js ''__proto__'' \<notin> fst ` set vs \<and> list_all (\<lambda>kv. vector_typed (snd kv)) vs"
    by (rule verify_sidecars_typed) (simp_all add: own_order_def)
  then show ?thesis using Inr by simp
qed simp

text \<open>
  C39: an error of the engine is dropped. When the validation against the full shapes answers with an error, the
  vector is printed without it: it has no \<open>dialects\<close>, no \<open>replay\<close> and no \<open>error\<close>, and the partition has no
  member \<open>full\<close>; the measurement goes on and its exit status is that of success.
\<close>

theorem verify_drops_engine_error:
  assumes "verify_vector E c (Some (JStr f)) subject st = (t, Inr v)"
    and "verify_validate E c subject (co_shapes_full c) st = (u, Inr full)" "va_error full \<noteq> None"
  shows "\<exists>kvs p. v = JObj kvs
      \<and> map fst kvs = map js [''file'', ''graph_hash'', ''law_graph_hash'', ''shacl_by_severity_partition'', ''run_hooks'']
      \<and> map_of kvs (js ''shacl_by_severity_partition'') = Some (JObj p) \<and> js ''full'' \<notin> fst ` set p"
proof -
  have full: "va_dialects full = None" "va_shacl full = None" "va_replay full = None"
    using verify_validate_ok [OF assms(2)] assms(3) by (auto simp: validation_ok_def)
  obtain full' u' g l violations warnings hooks where
    w: "verify_validate E c subject (co_shapes_full c) st = (u', Inr full')"
    and v: "v = vector_object (Some (JStr f)) g l full' violations warnings hooks"
    using assms(1) unfolding verify_vector_def
    by (auto simp only: bindC_Inr_iff liftC_apply returnC_apply prod.inject sum.inject)
  have "full' = full" using w assms(2) by simp
  with v show ?thesis
    by (cases "va_shacl violations"; cases "va_shacl warnings")
       (simp_all add: vector_object_def shacl_partition_def full)
qed

theorem verify_drops_engine_error_witness:
  "\<exists>t kvs p. verify_vector (canned_E (demo_engine error_value) verify_imports) demo_corpus (Some (str ''v.ttl''))
        (js ''s'') demo_ready = (t, Inr (JObj kvs))
      \<and> map fst kvs = map js [''file'', ''graph_hash'', ''law_graph_hash'', ''shacl_by_severity_partition'', ''run_hooks'']
      \<and> map_of kvs (js ''shacl_by_severity_partition'') = Some (JObj p) \<and> js ''full'' \<notin> fst ` set p"
proof -
  let ?E = "canned_E (demo_engine error_value) verify_imports"
  let ?sv = "canned_service (demo_engine error_value)"
  let ?r = "\<lparr>va_error = Some (str ''shapes''), va_dialects = None, va_shacl = None, va_replay = None\<rparr>"
  have serves: "serves ?E ?sv" by (rule canned_serves [OF demo_engine_ok(1)])
  have ref: "ref_validate (service_answer ?sv) demo_corpus (js ''s'') shapes = Inr ?r" for shapes
    using json_parse_stringify [OF demo_values_plain(2)] unfolding ref_validate_def error_value_def
    by (simp add: demo_engine_answers verify_report_def get_prop_def truthy_opt_def js_eq_Nil)
  have "\<exists>v. ref_vector (service_answer ?sv) demo_corpus (Some (str ''v.ttl'')) (js ''s'') = Inr v"
    unfolding ref_vector_def ref demo_engine_answers json_parse_stringify [OF demo_values_plain(3)] bindE_simps demo_hooks
    by simp
  then obtain t v where v: "verify_vector ?E demo_corpus (Some (str ''v.ttl'')) (js ''s'') demo_ready = (t, Inr v)"
    using verify_vector_computes [OF serves demo_vector_calls, of "Some (str ''v.ttl'')"] canned_idle
    unfolding computes_def by fastforce
  have "computes ?sv (verify_validate ?E demo_corpus (js ''s'') (co_shapes_full demo_corpus)) (Inr ?r)"
    using verify_validate_computes [OF serves, of demo_corpus "js ''s''" "co_shapes_full demo_corpus"]
      demo_vector_calls [of error_value]
    by (simp add: ref vector_calls_def)
  then obtain u where "verify_validate ?E demo_corpus (js ''s'') (co_shapes_full demo_corpus) demo_ready = (u, Inr ?r)"
    using canned_idle unfolding computes_def by blast
  then show ?thesis using verify_drops_engine_error [OF v] v by fastforce
qed

text \<open>
  The measurement of the sidecars one after the other, each in the state the one before left, and the
  name a sidecar gives its vector. Names are written as properties of the object of all vectors.
\<close>

inductive measured ::
  "'s world \<Rightarrow> jstr \<Rightarrow> 's exports_obj \<Rightarrow> corpus \<Rightarrow> jstr list \<Rightarrow> 's inst \<Rightarrow> (jstr \<times> jv) list \<Rightarrow> 's inst \<Rightarrow> bool"
  for W dir E c where
  measured_none: "measured W dir E c [] st [] st"
| measured_next: "verify_sidecar W dir E c rel st = (u, Inr kv) \<Longrightarrow> measured W dir E c rels u kvs t \<Longrightarrow>
    measured W dir E c (rel # rels) st (kv # kvs) t"

definition sidecar_name :: "'s world \<Rightarrow> jstr \<Rightarrow> jstr \<Rightarrow> jstr" where
  "sidecar_name W dir rel =
     (case verify_json W dir rel of
        Inl e \<Rightarrow> []
      | Inr sidecar \<Rightarrow>
          (case get_prop sidecar (js ''vector'') of
             Inl e \<Rightarrow> []
           | Inr name \<Rightarrow> (case to_string_opt name of Inl e \<Rightarrow> [] | Inr k \<Rightarrow> k)))"

definition first_occurrences :: "'a list \<Rightarrow> 'a list" where
  "first_occurrences xs = rev (remdups (rev xs))"

definition word_names :: "jstr list \<Rightarrow> jstr list" where
  "word_names ks = filter (\<lambda>k. index_key k = None \<and> k \<noteq> js ''__proto__'') ks"

abbreviation put_all :: "(jstr \<times> jv) list \<Rightarrow> (jstr \<times> jv) list \<Rightarrow> (jstr \<times> jv) list" where
  "put_all \<equiv> foldl (\<lambda>vs kv. vector_put vs (fst kv) (snd kv))"

lemma first_occurrences_snoc:
  "first_occurrences (xs @ [x]) = (if x \<in> set xs then first_occurrences xs else first_occurrences xs @ [x])"
  by (simp add: first_occurrences_def)

lemma verify_sidecars_measured:
  "verify_sidecars W dir E c rels acc st = (t, Inr vs) \<Longrightarrow>
     \<exists>kvs. measured W dir E c rels st kvs t \<and> vs = put_all acc kvs"
proof (induction rels arbitrary: acc st)
  case Nil
  then show ?case by (intro exI [of _ "[]"]) (simp add: measured_none)
next
  case (Cons rel rels)
  obtain u k v where step: "verify_sidecar W dir E c rel st = (u, Inr (k, v))"
    "verify_sidecars W dir E c rels (vector_put acc k v) u = (t, Inr vs)"
    using Cons.prems by (auto simp: bindC_Inr_iff)
  then obtain kvs where "measured W dir E c rels u kvs t" "vs = put_all (vector_put acc k v) kvs"
    using Cons.IH by blast
  then show ?case using step(1) by (intro exI [of _ "(k, v) # kvs"]) (simp add: measured_next)
qed

lemma measured_names: "measured W dir E c rels st kvs t \<Longrightarrow> map fst kvs = map (sidecar_name W dir) rels"
proof (induction rule: measured.induct)
  case (measured_next rel st u kv rels kvs t)
  obtain k v where kv: "kv = (k, v)" by fastforce
  have "sidecar_name W dir rel = k"
    using verify_sidecar_parts [OF measured_next(1) [unfolded kv]] by (auto simp: sidecar_name_def)
  then show ?case using measured_next(3) kv by simp
qed simp

lemma map_of_obj_put: "map_of (obj_put kvs k v) = (map_of kvs)(k \<mapsto> v)"
proof (cases "k \<in> fst ` set kvs")
  case True
  then obtain w where "map_of kvs k = Some w" by (meson map_of_eq_None_iff not_None_eq)
  then show ?thesis using True
    by (intro ext) (simp add: option.map_ident obj_put_def map_of_map_key [where h = "\<lambda>l w. if l = k then v else w"])
next
  case new: False
  have "map_of (xs @ (k, v) # ys) = (map_of (xs @ ys))(k \<mapsto> v)" if "k \<notin> fst ` set xs" for xs ys
    using that by (induction xs) (auto simp: fun_upd_twist)
  note insert = this
  show ?thesis
  proof (cases "index_key k")
    case None
    then show ?thesis using new insert [of kvs "[]"] by (simp add: obj_put_def)
  next
    case (Some i)
    let ?P = "\<lambda>(l, w). key_before l k"
    have "k \<notin> fst ` set (takeWhile ?P kvs)" using new by (auto dest: set_takeWhileD)
    from insert [OF this, of "dropWhile ?P kvs"] show ?thesis
      using new Some by (simp add: obj_put_def)
  qed
qed

lemma word_names_append [simp]: "word_names (ks @ ls) = word_names ks @ word_names ls"
  by (simp add: word_names_def)

lemma word_names_Cons [simp]:
  "word_names (k # ks) = (if index_key k = None \<and> k \<noteq> js ''__proto__'' then k # word_names ks else word_names ks)"
  by (simp add: word_names_def)

lemma word_names_obj_put:
  assumes "k \<noteq> js ''__proto__''"
  shows "word_names (map fst (obj_put kvs k v)) =
    (if k \<in> fst ` set kvs \<or> index_key k \<noteq> None then word_names (map fst kvs) else word_names (map fst kvs) @ [k])"
proof (cases "k \<in> fst ` set kvs")
  case True
  then show ?thesis by (simp add: obj_put_def comp_def case_prod_unfold)
next
  case new: False
  let ?P = "\<lambda>l. key_before l k"
  have "word_names (takeWhile ?P ks) @ word_names (dropWhile ?P ks) = word_names ks" for ks
    by (simp flip: word_names_append)
  then show ?thesis
    using assms new by (cases "index_key k") (simp_all add: obj_put_def map_fst_takeWhile word_names_def)
qed

lemma put_all_map: "map_of (put_all [] kvs) k = (if k = js ''__proto__'' then None else map_of (rev kvs) k)"
proof (induction kvs arbitrary: k rule: rev_induct)
  case (snoc kv kvs)
  then show ?case by (cases kv) (auto simp: vector_put_def map_of_obj_put)
qed simp

lemma put_all_order: "own_order (map fst (put_all [] kvs))"
proof (induction kvs rule: rev_induct)
  case (snoc kv kvs)
  then show ?case by (simp add: vector_put_def obj_put_own_order)
qed (simp add: own_order_def)

lemma put_all_words: "word_names (map fst (put_all [] kvs)) = first_occurrences (word_names (map fst kvs))"
proof (induction kvs rule: rev_induct)
  case Nil
  then show ?case by (simp add: word_names_def first_occurrences_def)
next
  case (snoc kv kvs)
  obtain k v where kv: "kv = (k, v)" by fastforce
  show ?case
  proof (cases "k = js ''__proto__''")
    case True
    then show ?thesis using snoc by (simp add: kv vector_put_def word_names_def)
  next
    case False
    have "k \<in> fst ` set (put_all [] kvs) \<longleftrightarrow> map_of (put_all [] kvs) k \<noteq> None"
      by (simp add: map_of_eq_None_iff)
    also have "\<dots> \<longleftrightarrow> k \<in> fst ` set kvs"
      using False by (simp add: put_all_map map_of_eq_None_iff)
    finally have "k \<in> fst ` set (put_all [] kvs) \<longleftrightarrow> k \<in> fst ` set kvs" .
    then show ?thesis
      using snoc False word_names_obj_put [OF False, of "put_all [] kvs" v]
      by (auto simp: kv vector_put_def word_names_def first_occurrences_snoc)
  qed
qed

text \<open>
  C40: the vectors printed are those of the sidecars, under their names. A measurement that completes has measured
  every sidecar once, in the order of the manifest, and its result maps a name to the vector of the last
  sidecar of that name and nothing else, except that \<open>__proto__\<close> is lost; the names that are array
  indices come first, ascending, the others follow in the order in which they were first measured.
\<close>

theorem verify_one_vector_each:
  assumes "verify_sidecars W dir E c rels [] st = (t, Inr vs)"
  shows "\<exists>kvs. measured W dir E c rels st kvs t \<and> map fst kvs = map (sidecar_name W dir) rels
     \<and> map_of vs = (map_of (rev kvs))(js ''__proto__'' := None)
     \<and> own_order (map fst vs)
     \<and> word_names (map fst vs) = first_occurrences (word_names (map (sidecar_name W dir) rels))"
proof -
  obtain kvs where kvs: "measured W dir E c rels st kvs t" "vs = put_all [] kvs"
    using verify_sidecars_measured [OF assms] by blast
  note names = measured_names [OF kvs(1)]
  have "map_of vs = (map_of (rev kvs))(js ''__proto__'' := None)"
    unfolding kvs(2) by (rule ext) (simp add: put_all_map)
  then show ?thesis
    using kvs names put_all_order [of kvs] put_all_words [of kvs] by auto
qed

text \<open>Two sidecars of the same name make one vector.\<close>

theorem verify_one_vector_each_witness:
  "\<exists>t vs. verify_sidecars (demo_corpus_world report_value demo_files) (js ''c'')
        (canned_E (demo_engine report_value) verify_imports) demo_corpus
        [js ''v.expected.json'', js ''v.expected.json''] [] demo_ready = (t, Inr vs)
      \<and> word_names (map fst vs) = [js ''v'']"
proof -
  let ?W = "demo_corpus_world report_value demo_files"
  let ?E = "canned_E (demo_engine report_value) verify_imports"
  let ?sv = "canned_service (demo_engine report_value)"
  let ?rels = "[js ''v.expected.json'', js ''v.expected.json'']"
  note files = demo_manifest [where fs = "[]", unfolded append_Nil2]
  have serves: "serves ?E ?sv" by (rule canned_serves [OF demo_engine_ok(2)])
  have "list_all (measurable ?W (js ''c'') ?sv demo_corpus) ?rels"
    using demo_vector_calls [of report_value]
    by (simp add: measurable_def files sidecar_value_def get_prop_def verify_read_value_def)
  note c = verify_sidecars_computes [OF serves this, of "[]"]
  have "ref_sidecar ?W (js ''c'') (service_answer ?sv) demo_corpus (js ''v.expected.json'') = Inr (js ''v'', demo_vector)"
    using demo_ref_vector
    by (simp add: ref_sidecar_def files sidecar_value_def get_prop_def verify_read_value_def to_string_opt_def)
  then obtain t vs where vs: "verify_sidecars ?W (js ''c'') ?E demo_corpus ?rels [] demo_ready = (t, Inr vs)"
    using c canned_idle unfolding computes_def by fastforce
  have "sidecar_name ?W (js ''c'') (js ''v.expected.json'') = js ''v''"
    by (simp add: sidecar_name_def files sidecar_value_def get_prop_def to_string_opt_def)
  moreover have "index_key (js ''v'') = None" by (rule index_key_word) (simp add: is_digit_def)
  ultimately have "word_names (map fst vs) = [js ''v'']"
    using verify_one_vector_each [OF vs] by (auto simp: word_names_def first_occurrences_def)
  then show ?thesis using vs by blast
qed

end
