(* ===== verification/Spec2Isabelle.thy ===== *)
theory Spec2Isabelle
  imports Host_Probe Host_File Host_Driver Host_Invoke Host_Peer Host_Modular Packet_Progress Abi_Bounds Authority_Facts Verify_Facts
begin

text \<open>
  The JavaScript side of ash_a2a: the processes through which the Elixir library runs the GraphLaw engine, a
  WebAssembly module, and the process that decides on the authority of a command. Each is a script that
  Node starts once; it reads its command line, its environment, files or standard input, and answers on
  standard output. The theories follow the scripts function by function; a definition has the name of the
  function it models, with a prefix for the script where several scripts use the same name.

  Parts and theories.

  \<^item> Shared by all scripts. \<open>Prelude\<close>: strings as lists of UTF-16 units, exceptions, computations over a state that
    survives an exception. \<open>Js_Number\<close>, \<open>Utf8\<close>, \<open>Json\<close>: Number values and their decimal text, TextEncoder and
    TextDecoder, JSON.parse, JSON.stringify and the order of an object's own properties. \<open>Json_Facts\<close>,
    \<open>Json_Order\<close>: the round trip between values and text, the fuel of the parser, the order as an invariant.
  \<^item> The engine. \<open>Wasm_Abi\<close>: \<open>putStr\<close>, \<open>call\<close> and the import object, which all the scripts in priv/ repeat, over a
    module that is a parameter (import and export tables, functions over an instance with a linear memory).
    \<open>Abi_Trace\<close>: instrumented modules, which log the calls they get, and the string exchange call by call
    (\<open>exchanged\<close>). \<open>Abi_Serve\<close>: the calling convention the
    scripts rely on, as the contract of a service; an exchange under it returns the service's answer.
    \<open>Abi_Bounds\<close>: addresses at and above 2 GiB, and the deterministic fill.
  \<^item> The process. \<open>Host_World\<close>: what a script starts from and how it ends, with the locale \<open>responder\<close>, the contract
    with the process that spawned it.
  \<^item> One-shot scripts: \<open>Host_Probe\<close> (priv/graphlaw/graphlaw_host_probe.mjs), \<open>Host_File\<close> (graphlaw_host.mjs),
    \<open>Host_Driver\<close> (graphlaw_driver.mjs), \<open>Host_Invoke\<close> (graphlaw_invoke.mjs), \<open>Host_Peer\<close>
    (graphlaw_host_peer.mjs), \<open>Host_Modular\<close> (priv/graphlaw/host/graphlaw_host.mjs). The state is the instance, threaded
    through the loop over the calls; an exception is a value, and \<open>Uncaught\<close> is a script that dies of one.
  \<^item> The long-lived host, priv/graphlaw_host/graphlaw_host.mjs. \<open>Host_Packet\<close>: frames of a 32-bit length and JSON, the
    state (instance, input buffer, output, life), the data event with its loop, the end event. \<open>Packet_Frames\<close>: the
    frame codec (locale \<open>wire_codec\<close>) and the frame-by-frame server the event handler refines. \<open>Packet_Facts\<close>,
    \<open>Packet_Progress\<close>: replies, calls, guards, crashes; the loop ends and the host is never stuck.
  \<^item> The corpus verifier, priv/sa2a_graphlaw/verify.mjs. \<open>Host_Verify\<close>: paths, corpus files, validation, vectors, exit
    statuses. \<open>Verify_Facts\<close>: the reference without an instance, the contract of its exit statuses (locale
    \<open>reporter\<close>), the shape of a vector, faults that are not caught.
  \<^item> The authority host, test/support/hosts/authority_host.mjs. \<open>Authority\<close>: canonical JSON, the verdict, the actuator
    behind the gate, both modes of the script. \<open>Authority_Facts\<close>: who is admitted, what is ignored, what the canonical
    text keeps, when the actuator runs.
  \<^item> Witnesses. \<open>Abi_Demo\<close>, \<open>Canned_Demo\<close>: two modules that meet the contract of a service; \<open>Demo_World\<close>, \<open>Verify_Demo\<close>: files
    and a corpus around them. Every property with hypotheses has a witness built on these.

  What is shown. For each script in priv/: on a module that keeps the calling convention it answers with the engine's
  answers to exactly the caller's strings, in order (\<open>probe_answers\<close> to \<open>modular_answers\<close>, \<open>packet_answers\<close>,
  \<open>verify_equals_reference\<close>); which exports it can be made to call, whatever the request (\<open>file_allowlist\<close>,
  \<open>packet_session_calls\<close>, \<open>verify_calls_engine_only\<close>, \<open>peer_refuses\<close>); and on which inputs it responds in the form its
  caller parses, or does not (\<open>hosts_always_respond\<close> and the lemmas around it). For the long-lived host: it is a
  function of the byte stream and not of the chunks. For the authority host: it admits exactly the entitled, and the
  actuator runs exactly for the admitted. Where the code departs from what it says of itself the departure is a
  theorem: \<open>packet_dies_of_null\<close>, \<open>driver_dies_of_null\<close>, \<open>driver_stack_leak\<close>, \<open>modular_stub_blames_last\<close>,
  \<open>packet_string_arguments\<close>, \<open>fill_diverges\<close>, \<open>high_result_misread\<close>, \<open>authority_acts_unreported\<close>,
  \<open>verify_unreadable_file_uncaught\<close>, \<open>verify_drops_engine_error\<close>.

  Bounds and fuel. The JSON parser has fuel \<open>2 * length s + 2\<close>; \<open>json_parse_fuel_enough\<close> shows that more changes nothing.
  The digits of a number are searched up to 17, which identify a double. All other loops are structural recursions
  or have a measure: the loop of a data event takes at least four bytes off the buffer in each turn. Words are
  kept at their width: 32 bits for the engine's addresses and lengths, read by JavaScript as signed numbers; 16 bits for
  string units; 8 bits for bytes; Number values are integers or dyadic fractions with IEEE rounding.

  Round trips hold for values whose numbers are integers of at most 53 bits (\<open>small\<close>): the text is read back as the
  value with the keys of its objects in the language's order (\<open>listed\<close>), which is the value itself when they are
  listed so (\<open>plain\<close>). Other numbers are computed by the same definitions but their text is not shown to be read back.

  Parameters. The engine's module (\<open>wmodule\<close>); file system, clock, \<open>Date.parse\<close> and SHA-256; the text of the errors that
  Node and the engine raise (\<open>texts\<close>). What is assumed of the module is the contract \<open>serves\<close>, used as a hypothesis and met
  by the modules of the witnesses; nothing is assumed of the rest.

  Not modelled. The Elixir library, its tests and mix tasks, which are the other side of the contracts stated here; the
  inside of the GraphLaw module; growth of the linear memory by anything but the module; modules that import from a module named like a
  property of \<open>Object.prototype\<close>; stack overflow and
  exhaustion of memory in Node; minus zero, which no printed text tells from zero; writes to a closed standard output; and standard error, whose text
  no caller parses.
\<close>

section \<open>All the one-shot hosts answer\<close>

text \<open>
  C24: the probe, the request-file host and the peer print, in every environment, one JSON object with a
  boolean \<open>ok\<close> that the caller can parse, and exit with status 0; no exception escapes any of them.
\<close>

theorem hosts_always_respond:
  "(\<exists>out kvs b. probe_main W = Exit out 0 \<and> json_parse out = Inr (JObj kvs) \<and> map_of kvs (js ''ok'') = Some (JBool b))
   \<and> (\<exists>out kvs b. file_process W = Exit out 0 \<and> json_parse out = Inr (JObj kvs) \<and> map_of kvs (js ''ok'') = Some (JBool b))
   \<and> (\<exists>out kvs b. peer_process W = Exit out 0 \<and> json_parse out = Inr (JObj kvs) \<and> map_of kvs (js ''ok'') = Some (JBool b))"
  using probe.caller_decodes [of W] batch.caller_decodes [of W] peer.caller_decodes [of W] by simp

end
